theory Spec2Isabelle
  imports Complex_Main "HOL-Library.Product_Lexorder" "HOL-Library.Log_Nat"
begin

section \<open>Data model\<close>

text \<open>
  The scripts under \<^verbatim>\<open>src/scripts/clean\<close> thread pandas data frames through
  three stages: \<^verbatim>\<open>1_data_cleaning\<close>, \<^verbatim>\<open>2_eda\<close> and \<^verbatim>\<open>3_cohort_analysis_metrics\<close>.
  A data frame is modelled as the list of its rows, a row as a record of the columns the
  metrics depend on, and a nullable column (NaN, NaT) as an \<open>option\<close>.

  A timestamp is a pair of a calendar month (counted as \<open>12 * year + (month - 1)\<close>) and
  the offset inside that month; with the lexicographic order on pairs this is the
  chronological order, and \<^verbatim>\<open>.dt.to_period('M')\<close> is the first component.
  Amounts and ratios are rationals. A float64 value is the rational it denotes; a
  division, a product and \<^verbatim>\<open>.round(n)\<close> on float64 columns round their exact result to
  the nearest binary64 number, as the hardware does. Sums of amounts are exact.
\<close>

type_synonym period = nat
type_synonym timestamp = "period \<times> nat"

definition to_period_M :: "timestamp \<Rightarrow> period" where
  "to_period_M t = fst t"

datatype error = FileNotFoundError

record cash_request =
  id_cash :: int
  user_id :: "int option"
  deleted_account_id :: "int option"
  created_at :: "timestamp option"

record cash_clean = cash_request +
  final_user_id :: "int option"

record fee =
  fee_id :: int
  cash_request_id :: "int option"
  fee_status :: "string option"
  total_amount :: "rat option"

section \<open>Stage 1: data cleaning\<close>

text \<open>
  \<^verbatim>\<open>cash_df.loc[user_id.notnull() & deleted_account_id.notnull(), 'deleted_account_id'] = np.nan\<close>
\<close>

definition nullify_deleted_account_id :: "cash_request \<Rightarrow> cash_request" where
  "nullify_deleted_account_id r =
     (if user_id r \<noteq> None \<and> deleted_account_id r \<noteq> None
      then r\<lparr>deleted_account_id := None\<rparr> else r)"

text \<open>\<^verbatim>\<open>a.fillna(b)\<close> on two aligned columns, one cell at a time.\<close>

definition fillna :: "'a option \<Rightarrow> 'a option \<Rightarrow> 'a option" where
  "fillna a b = (case a of None \<Rightarrow> b | Some x \<Rightarrow> Some x)"

text \<open>\<^verbatim>\<open>cash_df['final_user_id'] = cash_df['user_id'].fillna(cash_df['deleted_account_id'])\<close>\<close>

definition add_final_user_id :: "cash_request \<Rightarrow> cash_clean" where
  "add_final_user_id r =
     \<lparr>id_cash = id_cash r, user_id = user_id r,
      deleted_account_id = deleted_account_id r, created_at = created_at r,
      final_user_id = fillna (user_id r) (deleted_account_id r)\<rparr>"

text \<open>
  \<^verbatim>\<open>fees_df[~fees_df['cash_request_id'].isin(valid_cash_ids)]\<close>: a NaN key is in no set of
  integer ids, so rows with a null key count as unmatched too.
\<close>

definition isin :: "int option \<Rightarrow> int list \<Rightarrow> bool" where
  "isin k ids = (case k of None \<Rightarrow> False | Some i \<Rightarrow> i \<in> set ids)"

definition unmatched_ids :: "int list \<Rightarrow> fee list \<Rightarrow> fee list" where
  "unmatched_ids valid_cash_ids fees_df =
     filter (\<lambda>f. \<not> isin (cash_request_id f) valid_cash_ids) fees_df"

text \<open>\<^verbatim>\<open>fees_df = fees_df[fees_df['cash_request_id'].notnull()].copy()\<close>\<close>

definition drop_null_cash_request_id :: "fee list \<Rightarrow> fee list" where
  "drop_null_cash_request_id fees_df = filter (\<lambda>f. cash_request_id f \<noteq> None) fees_df"

text \<open>The counts that the cleaning script prints on its way.\<close>

record cleaning_report =
  rows_with_both :: nat
  missing_final_ids :: nat
  unmatched_rows :: nat
  dropped :: nat

text \<open>
  The cleaning script from loading to saving. \<^verbatim>\<open>pd.read_csv\<close> raises
  \<^verbatim>\<open>FileNotFoundError\<close> for a missing file (\<open>None\<close> here) and the script re-raises
  it; no later statement of the script raises or exits.
\<close>

definition data_cleaning ::
  "cash_request list option \<Rightarrow> fee list option \<Rightarrow>
     error + (cash_clean list \<times> fee list \<times> cleaning_report)" where
  "data_cleaning cash_csv fees_csv =
     (case cash_csv of None \<Rightarrow> Inl FileNotFoundError
      | Some cash_df0 \<Rightarrow>
     (case fees_csv of None \<Rightarrow> Inl FileNotFoundError
      | Some fees_df0 \<Rightarrow>
        let both = length (filter (\<lambda>r. user_id r \<noteq> None \<and> deleted_account_id r \<noteq> None) cash_df0);
            cash_df1 = map nullify_deleted_account_id cash_df0;
            cash_df = map add_final_user_id cash_df1;
            missing = length (filter (\<lambda>r. final_user_id r = None) cash_df);
            valid_cash_ids = map id_cash cash_df;
            unmatched = unmatched_ids valid_cash_ids fees_df0;
            fees_df = drop_null_cash_request_id fees_df0
        in Inr (cash_df, fees_df,
                \<lparr>rows_with_both = both, missing_final_ids = missing,
                 unmatched_rows = length unmatched,
                 dropped = length fees_df0 - length fees_df\<rparr>)))"

section \<open>Stage 2: linking fees to cash requests, first request per user\<close>

text \<open>
  \<^verbatim>\<open>cash_df['year_month'] = cash_df['created_at'].dt.to_period('M')\<close>; NaT stays NaT.
\<close>

record cash_eda = cash_clean +
  year_month :: "period option"

definition add_year_month :: "cash_clean \<Rightarrow> cash_eda" where
  "add_year_month r =
     \<lparr>id_cash = id_cash r, user_id = user_id r,
      deleted_account_id = deleted_account_id r, created_at = created_at r,
      final_user_id = final_user_id r,
      year_month = map_option to_period_M (created_at r)\<rparr>"

text \<open>
  \<^verbatim>\<open>left.merge(right, how='left', on=key)\<close>: every left row appears once per right row
  with an equal key, in the order of the right table, and once with empty right columns
  when no right row matches. Keys are compared as pandas does, a null key being equal
  to a null key only.
\<close>

definition merge_left_row :: "('a \<Rightarrow> 'k) \<Rightarrow> ('b \<Rightarrow> 'k) \<Rightarrow> 'b list \<Rightarrow> 'a \<Rightarrow> ('a \<times> 'b option) list" where
  "merge_left_row lk rk right l =
     (let ms = filter (\<lambda>r. rk r = lk l) right
      in if ms = [] then [(l, None)] else map (\<lambda>r. (l, Some r)) ms)"

definition merge_left :: "('a \<Rightarrow> 'k) \<Rightarrow> ('b \<Rightarrow> 'k) \<Rightarrow> 'a list \<Rightarrow> 'b list \<Rightarrow> ('a \<times> 'b option) list" where
  "merge_left lk rk left right = concat (map (merge_left_row lk rk right) left)"

text \<open>
  \<^verbatim>\<open>merged_df = cash_df.merge(fees_df, how='left', left_on='cash_request_id', right_on='cash_request_id')\<close>,
  the left key being the (never null) id of the cash request.
\<close>

definition merged_df :: "cash_eda list \<Rightarrow> fee list \<Rightarrow> (cash_eda \<times> fee option) list" where
  "merged_df cash_df fees_df = merge_left (\<lambda>c. Some (id_cash c)) cash_request_id cash_df fees_df"

text \<open>\<^verbatim>\<open>df[col].nunique()\<close> on a column without nulls.\<close>

definition nunique :: "'a list \<Rightarrow> nat" where
  "nunique xs = length (remdups xs)"

text \<open>\<^verbatim>\<open>.dropna()\<close> on a column.\<close>

fun dropna :: "'a option list \<Rightarrow> 'a list" where
  "dropna [] = []"
| "dropna (None # xs) = dropna xs"
| "dropna (Some x # xs) = x # dropna xs"

text \<open>\<^verbatim>\<open>.min()\<close> of a datetime column: NaT is skipped, and the result is NaT when nothing is left.\<close>

definition min_skipna :: "timestamp option list \<Rightarrow> timestamp option" where
  "min_skipna xs = (case dropna xs of [] \<Rightarrow> None | t # ts \<Rightarrow> Some (fold min ts t))"

text \<open>
  A cohort label as the scripts store it: the string that \<^verbatim>\<open>.dt.to_period('M').astype(str)\<close>
  gives, \<^verbatim>\<open>'2020-01'\<close> for a month and \<^verbatim>\<open>'NaT'\<close> for a missing date. Strings
  of the first form are ordered as their months and all come before \<^verbatim>\<open>'NaT'\<close>.
\<close>

datatype period_label = Period period | NaT

instantiation period_label :: linorder
begin

fun less_eq_period_label :: "period_label \<Rightarrow> period_label \<Rightarrow> bool" where
  "less_eq_period_label (Period a) (Period b) = (a \<le> b)"
| "less_eq_period_label NaT (Period b) = False"
| "less_eq_period_label x NaT = True"

definition less_period_label :: "period_label \<Rightarrow> period_label \<Rightarrow> bool" where
  "less_period_label x y = (x \<le> y \<and> \<not> y \<le> x)"

instance
proof
  fix x y z :: period_label
  show "(x < y) = (x \<le> y \<and> \<not> y \<le> x)" by (simp add: less_period_label_def)
  show "x \<le> x" by (cases x) auto
  show "x \<le> y \<Longrightarrow> y \<le> z \<Longrightarrow> x \<le> z" by (cases x; cases y; cases z) auto
  show "x \<le> y \<Longrightarrow> y \<le> x \<Longrightarrow> x = y" by (cases x; cases y) auto
  show "x \<le> y \<or> y \<le> x" by (cases x; cases y) auto
qed

end

definition period_str :: "timestamp option \<Rightarrow> period_label" where
  "period_str d = (case d of None \<Rightarrow> NaT | Some t \<Rightarrow> Period (to_period_M t))"

text \<open>
  \<^verbatim>\<open>user_first_request = cash_df.groupby('final_user_id')['cash_created_at'].min().reset_index()\<close>
  with the column \<^verbatim>\<open>cohort_year_month\<close> added: one row per non-null user key, keys ascending.
\<close>

record user_first_request_row =
  final_user_id_ufr :: int
  first_request_date :: "timestamp option"
  cohort_year_month_ufr :: period_label

definition group_min :: "cash_eda list \<Rightarrow> int \<Rightarrow> timestamp option" where
  "group_min cash_df u =
     min_skipna (map created_at (filter (\<lambda>r. final_user_id r = Some u) cash_df))"

definition user_first_request :: "cash_eda list \<Rightarrow> user_first_request_row list" where
  "user_first_request cash_df =
     map (\<lambda>u. let d = group_min cash_df u
              in \<lparr>final_user_id_ufr = u, first_request_date = d,
                  cohort_year_month_ufr = period_str d\<rparr>)
         (sort (remdups (dropna (map final_user_id cash_df))))"

section \<open>Stage 3: cohort metrics\<close>

text \<open>
  \<^verbatim>\<open>merged_cash_fee_cohort = pd.merge(merged_df, user_first_request_df[[...]], on='final_user_id', how='left')\<close>
\<close>

record merged_cash_fee_cohort_row =
  cash_cols :: cash_eda
  fee_cols :: "fee option"
  cohort_year_month :: "period_label option"

definition merged_cash_fee_cohort ::
  "(cash_eda \<times> fee option) list \<Rightarrow> user_first_request_row list \<Rightarrow> merged_cash_fee_cohort_row list" where
  "merged_cash_fee_cohort merged user_first_request_df =
     map (\<lambda>((c, f), u). \<lparr>cash_cols = c, fee_cols = f,
                          cohort_year_month = map_option cohort_year_month_ufr u\<rparr>)
         (merge_left (\<lambda>(c, f). final_user_id c) (\<lambda>u. Some (final_user_id_ufr u))
            merged user_first_request_df)"

text \<open>The tables of stage 2 fed into the cohort merge of stage 3.\<close>

definition cohort_tagged :: "cash_clean list \<Rightarrow> fee list \<Rightarrow> merged_cash_fee_cohort_row list" where
  "cohort_tagged cash fees_df =
     (let cash_df = map add_year_month cash
      in merged_cash_fee_cohort (merged_df cash_df fees_df) (user_first_request cash_df))"

text \<open>
  A matrix-shaped data frame: the column labels, and the rows as \<^verbatim>\<open>iterrows()\<close> yields
  them, each with its index label.
\<close>

record 'v matrix =
  columns :: "period list"
  rows :: "(period_label \<times> 'v list) list"

definition cell :: "'v matrix \<Rightarrow> period_label \<Rightarrow> period \<Rightarrow> 'v option" where
  "cell M c m = (case map_of (rows M) c of None \<Rightarrow> None
                 | Some row \<Rightarrow> map_of (zip (columns M) row) m)"

text \<open>The cell of a cohort's row in the column of the cohort's own month, when there is one.\<close>

definition diagonal :: "'v matrix \<Rightarrow> period_label \<Rightarrow> 'v option" where
  "diagonal M c = (case c of NaT \<Rightarrow> None | Period p \<Rightarrow> cell M c p)"

text \<open>
  \<^verbatim>\<open>groupby(['cohort_year_month', 'year_month'])\<close>: rows with a null in either key are
  left out of every group.
\<close>

definition group_keys :: "merged_cash_fee_cohort_row list \<Rightarrow> (period_label \<times> period) list" where
  "group_keys df = dropna (map (\<lambda>r. case cohort_year_month r of None \<Rightarrow> None
                        | Some c \<Rightarrow> map_option (Pair c) (year_month (cash_cols r))) df)"

text \<open>\<^verbatim>\<open>.groupby([...]).size().reset_index(name='num_requests')\<close>\<close>

definition cohort_usage :: "merged_cash_fee_cohort_row list \<Rightarrow> ((period_label \<times> period) \<times> nat) list" where
  "cohort_usage df =
     (let ks = group_keys df in map (\<lambda>k. (k, count_list ks k)) (sort (remdups ks)))"

text \<open>\<^verbatim>\<open>cohort_usage.pivot(index=..., columns=..., values='num_requests').fillna(0).astype(int)\<close>\<close>

definition cohort_usage_matrix :: "merged_cash_fee_cohort_row list \<Rightarrow> int matrix" where
  "cohort_usage_matrix df =
     (let cu = cohort_usage df;
          idx = sort (remdups (map (\<lambda>(k, n). fst k) cu));
          cols = sort (remdups (map (\<lambda>(k, n). snd k) cu))
      in \<lparr>columns = cols,
          rows = map (\<lambda>c. (c, map (\<lambda>m. case map_of cu (c, m) of None \<Rightarrow> 0
                                      | Some n \<Rightarrow> int n) cols)) idx\<rparr>)"

text \<open>
  \<^verbatim>\<open>np.rint\<close> rounds to the nearest integer and a tie to the even one.
\<close>

definition rint :: "rat \<Rightarrow> int" where
  "rint x = (let f = \<lfloor>x\<rfloor>; d = x - of_int f
             in if d < 1 / 2 then f else if 1 / 2 < d then f + 1
                else if even f then f else f + 1)"

text \<open>
  The binary exponent of a positive rational, \<open>\<lfloor>log\<^sub>2 x\<rfloor>\<close>, from the bit lengths of its
  numerator and denominator.
\<close>

definition ilog2 :: "rat \<Rightarrow> int" where
  "ilog2 x = (let (p, q) = quotient_of x;
                  k = int (floorlog 2 (nat p)) - int (floorlog 2 (nat q))
              in if 2 powi k \<le> x then k else k - 1)"

text \<open>
  Rounding to binary64: the nearest number with a significand of 53 bits, a tie going to
  the even significand. The exponent range is left unbounded; overflow and subnormal
  numbers do not occur for counts, amounts and their ratios.
\<close>

definition float64 :: "rat \<Rightarrow> rat" where
  "float64 x = (if x = 0 then 0
                else let e = ilog2 \<bar>x\<bar> - 52
                     in sgn x * of_int (rint (\<bar>x\<bar> / 2 powi e)) * 2 powi e)"

text \<open>\<^verbatim>\<open>.astype(float)\<close> on a column of integers.\<close>

definition to_float :: "int \<Rightarrow> rat" where
  "to_float v = float64 (of_int v)"

text \<open>
  \<^verbatim>\<open>.round(n)\<close> on a float64 column is numpy's \<^verbatim>\<open>rint(x * 10**n) / 10**n\<close>, the product
  and the quotient being float64 operations.
\<close>

definition round_decimals :: "nat \<Rightarrow> rat \<Rightarrow> rat" where
  "round_decimals n x = float64 (of_int (rint (float64 (x * 10 ^ n))) / 10 ^ n)"

text \<open>
  The loop body of the retention matrix:
  \<^verbatim>\<open>first_value = row[row > 0].iloc[0] if any(row > 0) else None\<close>, then
  \<^verbatim>\<open>(row / first_value).round(3)\<close> if \<^verbatim>\<open>first_value and first_value != 0\<close>, else \<^verbatim>\<open>0.0\<close>.
\<close>

definition retention_row :: "rat list \<Rightarrow> rat list" where
  "retention_row row =
     (case find (\<lambda>v. 0 < v) row of
        None \<Rightarrow> map (\<lambda>v. 0) row
      | Some first_value \<Rightarrow>
          if first_value \<noteq> 0
          then map (\<lambda>v. round_decimals 3 (float64 (v / first_value))) row
          else map (\<lambda>v. 0) row)"


text \<open>\<^verbatim>\<open>partial_months = ['2019-11', '2020-11']\<close>, as month numbers.\<close>

definition partial_months :: "period list" where
  "partial_months = [12 * 2019 + 10, 12 * 2020 + 10]"

text \<open>\<^verbatim>\<open>cohort_usage_matrix.drop(index=partial_months, columns=partial_months, errors='ignore')\<close>\<close>

definition filtered_usage :: "'v matrix \<Rightarrow> 'v matrix" where
  "filtered_usage U =
     \<lparr>columns = filter (\<lambda>m. m \<notin> set partial_months) (columns U),
      rows = map (\<lambda>(idx, row). (idx, map snd (filter (\<lambda>(m, v). m \<notin> set partial_months)
                                                 (zip (columns U) row))))
                 (filter (\<lambda>(idx, row). idx \<notin> set (map Period partial_months)) (rows U))\<rparr>"

text \<open>
  The loop body of the filtered retention matrix:
  \<^verbatim>\<open>first_value = row.loc[idx] if idx in row else None\<close>, then
  \<^verbatim>\<open>(row / first_value).round(3)\<close> if \<^verbatim>\<open>pd.notna(first_value) and first_value > 0\<close>,
  else \<^verbatim>\<open>0.0\<close>.
\<close>

definition filtered_retention_row :: "period list \<Rightarrow> period_label \<Rightarrow> rat list \<Rightarrow> rat list" where
  "filtered_retention_row cols idx row =
     (case (case idx of NaT \<Rightarrow> None | Period p \<Rightarrow> map_of (zip cols row) p) of
        None \<Rightarrow> map (\<lambda>v. 0) row
      | Some first_value \<Rightarrow>
          if 0 < first_value
          then map (\<lambda>v. round_decimals 3 (float64 (v / first_value))) row
          else map (\<lambda>v. 0) row)"

definition filtered_retention_matrix :: "int matrix \<Rightarrow> rat matrix" where
  "filtered_retention_matrix U =
     (let F = filtered_usage U
      in \<lparr>columns = columns F,
          rows = map (\<lambda>(idx, row). (idx, filtered_retention_row (columns F) idx (map to_float row)))
                     (rows F)\<rparr>)"

text \<open>\<^verbatim>\<open>total_counts = merged_cash_fee_cohort.groupby('cohort_year_month').size()\<close>\<close>

definition total_counts :: "merged_cash_fee_cohort_row list \<Rightarrow> (period_label \<times> nat) list" where
  "total_counts df =
     (let ks = dropna (map cohort_year_month df)
      in map (\<lambda>c. (c, count_list ks c)) (sort (remdups ks)))"

text \<open>
  \<^verbatim>\<open>accepted_fees = merged_df[merged_df['fee_status'] == 'accepted']\<close> and
  \<^verbatim>\<open>accepted_fees.groupby('cohort_year_month')['total_amount'].sum()\<close>, sorted by cohort;
  the sum skips missing amounts.
\<close>

definition fee_status_of :: "merged_cash_fee_cohort_row \<Rightarrow> string option" where
  "fee_status_of r = (case fee_cols r of None \<Rightarrow> None | Some f \<Rightarrow> fee_status f)"

definition total_amount_of :: "merged_cash_fee_cohort_row \<Rightarrow> rat option" where
  "total_amount_of r = (case fee_cols r of None \<Rightarrow> None | Some f \<Rightarrow> total_amount f)"

definition accepted_fees :: "merged_cash_fee_cohort_row list \<Rightarrow> merged_cash_fee_cohort_row list" where
  "accepted_fees df = filter (\<lambda>r. fee_status_of r = Some ''accepted'') df"

definition cohort_revenue :: "merged_cash_fee_cohort_row list \<Rightarrow> (period_label \<times> rat) list" where
  "cohort_revenue df =
     (let acc = accepted_fees df;
          ks = dropna (map cohort_year_month acc)
      in sort_key fst
           (map (\<lambda>c. (c, sum_list (dropna (map total_amount_of
                                         (filter (\<lambda>r. cohort_year_month r = Some c) acc)))))
                (sort (remdups ks))))"

text \<open>\<^verbatim>\<open>.cumsum()\<close>\<close>

fun cumsum_from :: "rat \<Rightarrow> rat list \<Rightarrow> rat list" where
  "cumsum_from acc [] = []"
| "cumsum_from acc (x # xs) = (acc + x) # cumsum_from (acc + x) xs"



text \<open>\<^verbatim>\<open>cohort_user_counts = user_first_request.groupby('cohort_year_month').size()\<close>\<close>

definition cohort_user_counts :: "user_first_request_row list \<Rightarrow> (period_label \<times> nat) list" where
  "cohort_user_counts ufr =
     (let ks = map cohort_year_month_ufr ufr
      in map (\<lambda>c. (c, count_list ks c)) (sort (remdups ks)))"

text \<open>
  \<^verbatim>\<open>arpu_df = pd.merge(cohort_revenue, cohort_user_counts, on='cohort_year_month', how='left')\<close>
  and \<^verbatim>\<open>arpu_df['arpu'] = (arpu_df['cohort_revenue'] / arpu_df['user_count']).round(2)\<close>.
\<close>

record arpu_row =
  cohort_of :: period_label
  revenue_of :: rat
  user_count :: "nat option"
  arpu :: "rat option"

definition arpu_df :: "(period_label \<times> rat) list \<Rightarrow> user_first_request_row list \<Rightarrow> arpu_row list" where
  "arpu_df revenue ufr =
     map (\<lambda>((c, rev), cnt).
            \<lparr>cohort_of = c, revenue_of = rev, user_count = map_option snd cnt,
             arpu = map_option (\<lambda>(c', n). round_decimals 2 (float64 (rev / to_float (int n))))
                      cnt\<rparr>)
         (merge_left fst fst revenue (cohort_user_counts ufr))"

text \<open>
  \<^verbatim>\<open>retention_binary = retention_df.gt(0).astype(int)\<close> and
  \<^verbatim>\<open>avg_retention_months = retention_binary.sum(axis=1)\<close>
\<close>

definition avg_retention_months :: "rat matrix \<Rightarrow> (period_label \<times> nat) list" where
  "avg_retention_months R = map (\<lambda>(idx, row). (idx, length (filter (\<lambda>v. 0 < v) row))) (rows R)"

text \<open>
  \<^verbatim>\<open>clv_df = arpu_df.merge(avg_retention_months, on='cohort_year_month', how='left')\<close>,
  \<^verbatim>\<open>clv_df['clv'] = (clv_df['arpu'] * clv_df['avg_retention_months']).round(2)\<close> and
  \<^verbatim>\<open>clv_df = clv_df[~clv_df['cohort_year_month'].isin(partial_months)]\<close>.
\<close>

record clv_row = arpu_row +
  avg_months :: "nat option"
  clv :: "rat option"

definition clv_of :: "rat option \<Rightarrow> nat option \<Rightarrow> rat option" where
  "clv_of a n = (case a of None \<Rightarrow> None
                 | Some x \<Rightarrow>
                     map_option (\<lambda>k. round_decimals 2 (float64 (x * to_float (int k)))) n)"

definition clv_df :: "arpu_row list \<Rightarrow> rat matrix \<Rightarrow> clv_row list" where
  "clv_df arpu_tab retention_df =
     filter (\<lambda>r. cohort_of r \<notin> set (map Period partial_months))
       (map (\<lambda>(a, m).
               \<lparr>cohort_of = cohort_of a, revenue_of = revenue_of a,
                user_count = user_count a, arpu = arpu a,
                avg_months = map_option snd m,
                clv = clv_of (arpu a) (map_option snd m)\<rparr>)
            (merge_left cohort_of fst arpu_tab (avg_retention_months retention_df)))"

text \<open>
  The CLV step on its three inputs: the revenue table, the per-user table and the
  cohort-tagged table from which the filtered retention matrix is built.
\<close>

definition clv_table ::
  "(period_label \<times> rat) list \<Rightarrow> user_first_request_row list \<Rightarrow> merged_cash_fee_cohort_row list \<Rightarrow>
     clv_row list" where
  "clv_table revenue ufr df =
     clv_df (arpu_df revenue ufr) (filtered_retention_matrix (cohort_usage_matrix df))"

section \<open>Example tables\<close>

text \<open>
  Three cash requests, the last one carrying both identity columns, and three fees: one
  without a cash request, one pointing at a cash request that does not exist, one linked.
\<close>

definition ex_cash :: "cash_request list" where
  "ex_cash =
     [\<lparr>id_cash = 1, user_id = Some 42, deleted_account_id = None, created_at = Some (24240, 15)\<rparr>,
      \<lparr>id_cash = 2, user_id = None, deleted_account_id = Some 77, created_at = Some (24241, 1)\<rparr>,
      \<lparr>id_cash = 280, user_id = Some 42, deleted_account_id = Some 77, created_at = Some (24242, 10)\<rparr>]"

definition ex_fees :: "fee list" where
  "ex_fees =
     [\<lparr>fee_id = 1, cash_request_id = None, fee_status = Some ''accepted'', total_amount = Some 5\<rparr>,
      \<lparr>fee_id = 2, cash_request_id = Some 999, fee_status = Some ''accepted'', total_amount = Some 5\<rparr>,
      \<lparr>fee_id = 3, cash_request_id = Some 1, fee_status = Some ''accepted'', total_amount = Some 5\<rparr>]"

text \<open>A cash request with neither identity column filled in.\<close>

definition ex_anonymous :: "cash_request list" where
  "ex_anonymous =
     [\<lparr>id_cash = 7, user_id = None, deleted_account_id = None, created_at = Some (24240, 3)\<rparr>]"

text \<open>Two cash requests of user 1, in January and March 2020, and one of user 2.\<close>

definition ex_users :: "cash_clean list" where
  "ex_users =
     [\<lparr>id_cash = 1, user_id = Some 1, deleted_account_id = None, created_at = Some (24240, 15), final_user_id = Some 1\<rparr>,
      \<lparr>id_cash = 2, user_id = Some 2, deleted_account_id = None, created_at = Some (24241, 1), final_user_id = Some 2\<rparr>,
      \<lparr>id_cash = 3, user_id = Some 1, deleted_account_id = None, created_at = Some (24242, 10), final_user_id = Some 1\<rparr>]"

text \<open>Fees on the cash requests of the two users, one of them rejected.\<close>

definition ex_paid :: "fee list" where
  "ex_paid =
     [\<lparr>fee_id = 10, cash_request_id = Some 1, fee_status = Some ''accepted'', total_amount = Some 5\<rparr>,
      \<lparr>fee_id = 11, cash_request_id = Some 2, fee_status = Some ''accepted'', total_amount = Some 10\<rparr>,
      \<lparr>fee_id = 12, cash_request_id = Some 3, fee_status = Some ''rejected'', total_amount = Some 5\<rparr>,
      \<lparr>fee_id = 13, cash_request_id = Some 3, fee_status = Some ''accepted'', total_amount = Some 5\<rparr>]"

text \<open>The same tables with a third user whose only request falls in November 2019.\<close>

definition ex_nov_users :: "cash_clean list" where
  "ex_nov_users = ex_users @
     [\<lparr>id_cash = 4, user_id = Some 3, deleted_account_id = None, created_at = Some (24238, 20),
       final_user_id = Some 3\<rparr>]"

definition ex_nov_fees :: "fee list" where
  "ex_nov_fees = ex_paid @
     [\<lparr>fee_id = 14, cash_request_id = Some 4, fee_status = Some ''accepted'', total_amount = Some 5\<rparr>]"




text \<open>Forty users of the cohort of January 2020, as rows of the per-user table.\<close>

definition ex_forty_users :: "user_first_request_row list" where
  "ex_forty_users =
     map (\<lambda>u. \<lparr>final_user_id_ufr = int u, first_request_date = Some (24240, u),
                cohort_year_month_ufr = Period 24240\<rparr>) [1..<41]"

section \<open>Identity unification\<close>

lemma fillna_simps [simp]:
  "fillna None b = b" "fillna (Some x) b = Some x"
  by (simp_all add: fillna_def)

lemma nullify_user_id [simp]: "user_id (nullify_deleted_account_id r) = user_id r"
  by (simp add: nullify_deleted_account_id_def)

lemma nullify_deleted:
  "deleted_account_id (nullify_deleted_account_id r) =
     (if user_id r \<noteq> None then None else deleted_account_id r)"
  by (auto simp: nullify_deleted_account_id_def)

lemma data_cleaning_cash:
  assumes "data_cleaning (Some cash_df0) (Some fees_df0) = Inr (cash_df, fees_df, rep)"
  shows "cash_df = map (\<lambda>r. add_final_user_id (nullify_deleted_account_id r)) cash_df0"
  using assms by (simp add: data_cleaning_def Let_def comp_def)

text \<open>
  C2. In the cleaned cash table, row \<open>i\<close> comes from raw row \<open>i\<close>; its
  \<open>final_user_id\<close> is the raw \<open>user_id\<close> when that is non-null and the raw
  \<open>deleted_account_id\<close> otherwise, and a row that held both ids keeps its
  \<open>user_id\<close> and has its \<open>deleted_account_id\<close> set to null, the
  \<open>final_user_id\<close> being computed from the row after that correction.
\<close>

theorem final_user_id_unified:
  assumes "data_cleaning (Some cash_df0) (Some fees_df0) = Inr (cash_df, fees_df, rep)"
    and "i < length cash_df0"
  shows "length cash_df = length cash_df0 \<and>
         cash_df ! i = add_final_user_id (nullify_deleted_account_id (cash_df0 ! i)) \<and>
         final_user_id (cash_df ! i) =
           (case user_id (cash_df0 ! i) of Some u \<Rightarrow> Some u
            | None \<Rightarrow> deleted_account_id (cash_df0 ! i)) \<and>
         (user_id (cash_df0 ! i) \<noteq> None \<and> deleted_account_id (cash_df0 ! i) \<noteq> None \<longrightarrow>
            user_id (cash_df ! i) = user_id (cash_df0 ! i) \<and>
            deleted_account_id (cash_df ! i) = None)"
proof -
  have row: "cash_df ! i = add_final_user_id (nullify_deleted_account_id (cash_df0 ! i))"
    and len: "length cash_df = length cash_df0"
    using data_cleaning_cash [OF assms(1)] assms(2) by simp_all
  show ?thesis
    by (simp add: row len add_final_user_id_def nullify_deleted split: option.splits)
qed

theorem final_user_id_unified_witness:
  "final_user_id (map (\<lambda>r. add_final_user_id (nullify_deleted_account_id r)) ex_cash ! 2) = Some 42 \<and>
   deleted_account_id (map (\<lambda>r. add_final_user_id (nullify_deleted_account_id r)) ex_cash ! 2) = None"
proof -
  have run: "data_cleaning (Some ex_cash) (Some []) =
     Inr (map (\<lambda>r. add_final_user_id (nullify_deleted_account_id r)) ex_cash, [],
          \<lparr>rows_with_both = 1, missing_final_ids = 0, unmatched_rows = 0, dropped = 0\<rparr>)"
    by (simp add: data_cleaning_def ex_cash_def Let_def add_final_user_id_def
        nullify_deleted_account_id_def unmatched_ids_def drop_null_cash_request_id_def)
  have i: "2 < length ex_cash" by (simp add: ex_cash_def)
  from final_user_id_unified [OF run i] show ?thesis
    by (simp add: ex_cash_def)
qed

section \<open>Left joins\<close>

lemma set_merge_left_row:
  "set (merge_left_row lk rk right l) =
     {(l, Some r) | r. r \<in> set right \<and> rk r = lk l} \<union>
     (if \<forall>r\<in>set right. rk r \<noteq> lk l then {(l, None)} else {})"
  by (auto simp: merge_left_row_def Let_def filter_empty_conv)

lemma set_merge_left:
  "set (merge_left lk rk left right) =
     {(l, Some r) | l r. l \<in> set left \<and> r \<in> set right \<and> rk r = lk l} \<union>
     {(l, None) | l. l \<in> set left \<and> (\<forall>r\<in>set right. rk r \<noteq> lk l)}"
  by (auto simp: merge_left_def set_merge_left_row split: if_splits)

lemma set_merge_left_row_fst: "fst ` set (merge_left_row lk rk right l) = {l}"
  by (auto simp: merge_left_row_def Let_def image_image filter_empty_conv)

lemma merge_left_row_length: "1 \<le> length (merge_left_row lk rk right l)"
  by (cases "filter (\<lambda>r. rk r = lk l) right") (simp_all add: merge_left_row_def Let_def)

lemma merge_left_fst: "fst ` set (merge_left lk rk left right) = set left"
  by (induction left) (simp_all add: merge_left_def set_merge_left_row_fst image_Un)

lemma merge_left_length: "length left \<le> length (merge_left lk rk left right)"
proof (induction left)
  case Nil
  show ?case by (simp add: merge_left_def)
next
  case (Cons l left)
  then show ?case using merge_left_row_length [of lk rk right l]
    by (simp add: merge_left_def)
qed

text \<open>
  C6. The left join of the cash requests with the fees loses no cash request: the joined
  table has as many distinct request ids as the cash table, and at least as many rows.
\<close>

theorem merged_df_preserves_requests:
  "nunique (map (\<lambda>(c, f). id_cash c) (merged_df cash_df fees_df)) = nunique (map id_cash cash_df) \<and>
   length cash_df \<le> length (merged_df cash_df fees_df)"
proof -
  have "set (map (\<lambda>(c, f). id_cash c) (merged_df cash_df fees_df)) =
          id_cash ` (fst ` set (merged_df cash_df fees_df))"
    by (force simp: image_iff)
  then have "set (map (\<lambda>(c, f). id_cash c) (merged_df cash_df fees_df)) = set (map id_cash cash_df)"
    by (simp add: merged_df_def merge_left_fst)
  then have "card (set (map (\<lambda>(c, f). id_cash c) (merged_df cash_df fees_df))) =
               card (set (map id_cash cash_df))"
    by simp
  then show ?thesis
    by (simp add: nunique_def merged_df_def merge_left_length length_remdups_card_conv)
qed

theorem merged_df_preserves_requests_witness:
  "nunique (map (\<lambda>(c, f). id_cash c)
      (merged_df (map (\<lambda>r. add_year_month (add_final_user_id r)) ex_cash) ex_fees)) = 3 \<and>
   3 \<le> length (merged_df (map (\<lambda>r. add_year_month (add_final_user_id r)) ex_cash) ex_fees)"
  using merged_df_preserves_requests
    [of "map (\<lambda>r. add_year_month (add_final_user_id r)) ex_cash" ex_fees]
  by (simp add: nunique_def ex_cash_def add_year_month_def add_final_user_id_def)

section \<open>Fees without a cash request\<close>

text \<open>
  C4, as the claim states it, fails: a fee whose \<open>cash_request_id\<close> is set but matches no
  cash request is counted by the unmatched-id check and stays in the cleaned table. Here the
  fee with key 999 is retained although the cleaned cash table holds the ids 1, 2 and 280.
\<close>

theorem unmatched_fee_counterexample:
  "data_cleaning (Some ex_cash) (Some ex_fees) =
     Inr (map (\<lambda>r. add_final_user_id (nullify_deleted_account_id r)) ex_cash,
          [ex_fees ! 1, ex_fees ! 2],
          \<lparr>rows_with_both = 1, missing_final_ids = 0, unmatched_rows = 2, dropped = 1\<rparr>) \<and>
   cash_request_id (ex_fees ! 1) = Some 999 \<and>
   map id_cash (map (\<lambda>r. add_final_user_id (nullify_deleted_account_id r)) ex_cash) = [1, 2, 280]"
  by (simp add: data_cleaning_def ex_cash_def ex_fees_def Let_def add_final_user_id_def
        nullify_deleted_account_id_def unmatched_ids_def drop_null_cash_request_id_def isin_def)

text \<open>
  C4, amended. After cleaning, every retained fee has a non-null \<open>cash_request_id\<close>; the
  fees dropped are exactly those with a null \<open>cash_request_id\<close>; the fees whose key is
  absent from the cash request ids are counted (null keys included) and, when their key
  is non-null, retained.
\<close>

theorem null_fk_fees_dropped:
  assumes "data_cleaning (Some cash_df0) (Some fees_df0) = Inr (cash_df, fees_df, rep)"
  shows "fees_df = filter (\<lambda>f. cash_request_id f \<noteq> None) fees_df0 \<and>
         (\<forall>f\<in>set fees_df. cash_request_id f \<noteq> None) \<and>
         (\<forall>f\<in>set fees_df0. (f \<in> set fees_df) = (cash_request_id f \<noteq> None)) \<and>
         unmatched_rows rep =
           length (filter (\<lambda>f. \<not> isin (cash_request_id f) (map id_cash cash_df)) fees_df0) \<and>
         dropped rep = length (filter (\<lambda>f. cash_request_id f = None) fees_df0)"
proof -
  from assms have f: "fees_df = filter (\<lambda>f. cash_request_id f \<noteq> None) fees_df0"
    and u: "unmatched_rows rep =
           length (filter (\<lambda>f. \<not> isin (cash_request_id f) (map id_cash cash_df)) fees_df0)"
    and d: "dropped rep = length fees_df0 - length (filter (\<lambda>f. cash_request_id f \<noteq> None) fees_df0)"
    by (auto simp: data_cleaning_def Let_def drop_null_cash_request_id_def unmatched_ids_def comp_def)
  have "length fees_df0 = length (filter (\<lambda>f. cash_request_id f \<noteq> None) fees_df0)
          + length (filter (\<lambda>f. cash_request_id f = None) fees_df0)"
    using sum_length_filter_compl [of "\<lambda>f. cash_request_id f \<noteq> None" fees_df0] by simp
  with d have "dropped rep = length (filter (\<lambda>f. cash_request_id f = None) fees_df0)" by simp
  with f u show ?thesis by auto
qed

theorem null_fk_fees_dropped_witness:
  "[ex_fees ! 1, ex_fees ! 2] = filter (\<lambda>f. cash_request_id f \<noteq> None) ex_fees \<and>
   (ex_fees ! 0 \<in> set [ex_fees ! 1, ex_fees ! 2]) = (cash_request_id (ex_fees ! 0) \<noteq> None)"
proof -
  have run: "data_cleaning (Some ex_cash) (Some ex_fees) =
     Inr (map (\<lambda>r. add_final_user_id (nullify_deleted_account_id r)) ex_cash,
          [ex_fees ! 1, ex_fees ! 2],
          \<lparr>rows_with_both = 1, missing_final_ids = 0, unmatched_rows = 2, dropped = 1\<rparr>)"
    by (simp add: data_cleaning_def ex_cash_def ex_fees_def Let_def add_final_user_id_def
        nullify_deleted_account_id_def unmatched_ids_def drop_null_cash_request_id_def isin_def)
  have "ex_fees ! 0 \<in> set ex_fees" by (simp add: ex_fees_def)
  with null_fk_fees_dropped [OF run] show ?thesis by blast
qed

section \<open>Rows without a user key\<close>

lemma cohort_tagged_null_user:
  assumes "r \<in> set (cohort_tagged cash fees_df)" "final_user_id (cash_cols r) = None"
  shows "cohort_year_month r = None"
  using assms
  by (auto simp: cohort_tagged_def Let_def merged_cash_fee_cohort_def set_merge_left)

text \<open>
  C3, as the claim states it, fails: the count of rows with a null \<open>final_user_id\<close> is
  only printed. For a cash request with neither identity column the cleaning stage returns
  its tables with the count 1, and the cohort merge runs on the row, leaving it without a
  cohort.
\<close>

theorem missing_final_id_counterexample:
  "data_cleaning (Some ex_anonymous) (Some []) =
     Inr (map add_final_user_id ex_anonymous, [],
          \<lparr>rows_with_both = 0, missing_final_ids = 1, unmatched_rows = 0, dropped = 0\<rparr>) \<and>
   map final_user_id (map add_final_user_id ex_anonymous) = [None] \<and>
   map cohort_year_month (cohort_tagged (map add_final_user_id ex_anonymous) []) = [None]"
  by (simp add: data_cleaning_def ex_anonymous_def Let_def add_final_user_id_def
        nullify_deleted_account_id_def unmatched_ids_def drop_null_cash_request_id_def
        cohort_tagged_def merged_cash_fee_cohort_def merged_df_def merge_left_def
        merge_left_row_def add_year_month_def user_first_request_def)

text \<open>
  C3, amended. After identity unification the number of rows with a null
  \<open>final_user_id\<close> is counted and reported, and the pipeline goes on whatever the count
  is: with both input files present the cleaning stage returns its tables, every cash
  request kept, and the cohort merge leaves each row with a null \<open>final_user_id\<close> without
  a cohort.
\<close>

theorem missing_final_ids_reported:
  "\<exists>cash_df fees_df rep.
     data_cleaning (Some cash_df0) (Some fees_df0) = Inr (cash_df, fees_df, rep) \<and>
     length cash_df = length cash_df0 \<and>
     missing_final_ids rep = length (filter (\<lambda>r. final_user_id r = None) cash_df) \<and>
     (\<forall>r\<in>set (cohort_tagged cash_df fees_df).
        final_user_id (cash_cols r) = None \<longrightarrow> cohort_year_month r = None)"
  by (auto simp: data_cleaning_def Let_def comp_def dest: cohort_tagged_null_user)

theorem missing_final_ids_reported_witness:
  "\<exists>cash_df fees_df rep.
     data_cleaning (Some ex_anonymous) (Some []) = Inr (cash_df, fees_df, rep) \<and>
     length cash_df = 1 \<and> missing_final_ids rep = 1"
  using missing_final_ids_reported [of ex_anonymous "[]"]
  by (auto simp: ex_anonymous_def add_final_user_id_def nullify_deleted_account_id_def
      data_cleaning_def Let_def)

section \<open>Cohort assignment\<close>

lemma set_dropna: "set (dropna xs) = {x. Some x \<in> set xs}"
  by (induction xs rule: dropna.induct) auto

lemma min_skipna_None: "dropna xs = [] \<Longrightarrow> min_skipna xs = None"
  by (simp add: min_skipna_def)

lemma min_skipna_Min: "dropna xs \<noteq> [] \<Longrightarrow> min_skipna xs = Some (Min (set (dropna xs)))"
  by (cases "dropna xs") (simp_all add: min_skipna_def Min.set_eq_fold [symmetric])

lemma set_user_first_request:
  "set (user_first_request cash_df) =
     (\<lambda>u. \<lparr>final_user_id_ufr = u, first_request_date = group_min cash_df u,
            cohort_year_month_ufr = period_str (group_min cash_df u)\<rparr>) `
     {u. \<exists>r\<in>set cash_df. final_user_id r = Some u}"
  by (force simp: user_first_request_def Let_def set_dropna image_iff)

lemma cohort_of_merged:
  assumes "c \<in> set cash_df"
  shows "set (merge_left_row (\<lambda>(c, f). final_user_id c) (\<lambda>u. Some (final_user_id_ufr u))
               (user_first_request cash_df) (c, f)) =
         {((c, f), map_option (\<lambda>u. \<lparr>final_user_id_ufr = u, first_request_date = group_min cash_df u,
            cohort_year_month_ufr = period_str (group_min cash_df u)\<rparr>) (final_user_id c))}"
  using assms
  by (cases "final_user_id c") (force simp: set_merge_left_row set_user_first_request)+

lemma set_cohort_tagged:
  "set (cohort_tagged cash fees_df) =
     (\<lambda>(c, f). \<lparr>cash_cols = c, fee_cols = f,
                cohort_year_month =
                  map_option (\<lambda>u. period_str (group_min (map add_year_month cash) u))
                             (final_user_id c)\<rparr>) `
     set (merged_df (map add_year_month cash) fees_df)"
proof -
  let ?cash = "map add_year_month cash"
  let ?M = "merged_df ?cash fees_df"
  have in_cash: "c \<in> set ?cash" if "(c, f) \<in> set ?M" for c f
    using that merge_left_fst [of "\<lambda>c. Some (id_cash c)" cash_request_id ?cash fees_df]
    by (force simp: merged_df_def)
  have "set (merge_left (\<lambda>(c, f). final_user_id c) (\<lambda>u. Some (final_user_id_ufr u)) ?M
               (user_first_request ?cash)) =
        (\<lambda>(c, f). ((c, f), map_option (\<lambda>u. \<lparr>final_user_id_ufr = u, first_request_date = group_min ?cash u,
            cohort_year_month_ufr = period_str (group_min ?cash u)\<rparr>) (final_user_id c))) ` set ?M"
    unfolding merge_left_def using in_cash
    by (auto simp: cohort_of_merged)
  then show ?thesis
    by (simp add: cohort_tagged_def Let_def merged_cash_fee_cohort_def image_image case_prod_beta
        option.map_comp comp_def)
qed

lemma filter_eq_distinct: "distinct xs \<Longrightarrow> x \<in> set xs \<Longrightarrow> filter (\<lambda>y. y = x) xs = [x]"
  by (induction xs) (auto simp: filter_empty_conv)

lemma group_min_add_year_month:
  "group_min (map add_year_month cash) u =
     min_skipna (map created_at (filter (\<lambda>r. final_user_id r = Some u) cash))"
  by (simp add: group_min_def filter_map comp_def add_year_month_def)

lemma user_first_request_lookup:
  assumes "r0 \<in> set cash_df" "final_user_id r0 = Some u"
  shows "filter (\<lambda>x. final_user_id_ufr x = u) (user_first_request cash_df) =
           [\<lparr>final_user_id_ufr = u, first_request_date = group_min cash_df u,
             cohort_year_month_ufr = period_str (group_min cash_df u)\<rparr>]"
proof -
  let ?us = "sort (remdups (dropna (map final_user_id cash_df)))"
  have d: "distinct ?us" by simp
  have m: "u \<in> set ?us" using assms by (force simp: set_dropna)
  show ?thesis
    by (simp add: user_first_request_def Let_def filter_map comp_def filter_eq_distinct [OF d m])
qed

text \<open>
  C5. For a user key \<open>u\<close> that occurs in the cash table, the per-user table holds
  exactly one row, whose cohort is the month of the earliest \<open>created_at\<close> among the
  cash requests of \<open>u\<close> (the label \<^verbatim>\<open>'NaT'\<close> when none of them has a date), and after the
  cohort merge the rows of \<open>u\<close> carry that cohort and no other value.
\<close>

theorem cohort_is_month_of_first_request:
  assumes "r0 \<in> set cash" "final_user_id r0 = Some u"
  shows "let ts = dropna (map created_at (filter (\<lambda>r. final_user_id r = Some u) cash));
             key = (if ts = [] then NaT else Period (to_period_M (Min (set ts))))
         in map cohort_year_month_ufr
              (filter (\<lambda>x. final_user_id_ufr x = u) (user_first_request (map add_year_month cash))) = [key] \<and>
            cohort_year_month `
              {r \<in> set (cohort_tagged cash fees_df). final_user_id (cash_cols r) = Some u} = {Some key}"
proof -
  let ?cash = "map add_year_month cash"
  let ?ts = "dropna (map created_at (filter (\<lambda>r. final_user_id r = Some u) cash))"
  let ?key = "if ?ts = [] then NaT else Period (to_period_M (Min (set ?ts)))"
  have key: "period_str (group_min ?cash u) = ?key"
    by (simp add: group_min_add_year_month period_str_def min_skipna_None min_skipna_Min)
  have r0: "add_year_month r0 \<in> set ?cash" "final_user_id (add_year_month r0) = Some u"
    using assms(1) by (simp, simp add: add_year_month_def assms(2))
  have ufr: "map cohort_year_month_ufr
              (filter (\<lambda>x. final_user_id_ufr x = u) (user_first_request ?cash)) = [?key]"
    by (simp add: user_first_request_lookup [OF r0] key)
  obtain f where f: "(add_year_month r0, f) \<in> set (merged_df ?cash fees_df)"
    using r0(1) merge_left_fst [of "\<lambda>c. Some (id_cash c)" cash_request_id ?cash fees_df]
    by (force simp: merged_df_def)
  have "cohort_year_month `
          {r \<in> set (cohort_tagged cash fees_df). final_user_id (cash_cols r) = Some u} = {Some ?key}"
  proof (rule set_eqI, rule iffI)
    fix k
    assume "k \<in> cohort_year_month `
          {r \<in> set (cohort_tagged cash fees_df). final_user_id (cash_cols r) = Some u}"
    then show "k \<in> {Some ?key}"
      using key by (auto simp: set_cohort_tagged)
  next
    fix k
    assume "k \<in> {Some ?key}"
    then have k: "k = Some (period_str (group_min ?cash u))" using key by simp
    let ?r = "\<lparr>cash_cols = add_year_month r0, fee_cols = f,
               cohort_year_month = Some (period_str (group_min ?cash u))\<rparr>"
    have "?r \<in> set (cohort_tagged cash fees_df)"
      unfolding set_cohort_tagged using f r0(2) by (force simp: image_iff)
    moreover have "final_user_id (cash_cols ?r) = Some u" using r0(2) by simp
    ultimately show "k \<in> cohort_year_month `
          {r \<in> set (cohort_tagged cash fees_df). final_user_id (cash_cols r) = Some u}"
      unfolding k by (force simp: image_iff)
  qed
  with ufr show ?thesis by (simp add: Let_def)
qed

theorem cohort_is_month_of_first_request_witness:
  "map cohort_year_month_ufr
     (filter (\<lambda>x. final_user_id_ufr x = 1) (user_first_request (map add_year_month ex_users))) =
     [Period 24240] \<and>
   cohort_year_month `
     {r \<in> set (cohort_tagged ex_users []). final_user_id (cash_cols r) = Some 1} = {Some (Period 24240)}"
proof -
  have m: "ex_users ! 0 \<in> set ex_users" by (simp add: ex_users_def)
  have u: "final_user_id (ex_users ! 0) = Some 1" by (simp add: ex_users_def)
  have ts: "dropna (map created_at (filter (\<lambda>r. final_user_id r = Some 1) ex_users)) =
              [(24240, 15), (24242, 10)]"
    by (simp add: ex_users_def)
  have mn: "Min (set [(24240, 15), (24242, 10 :: nat)]) = (24240 :: nat, 15)"
    by (simp add: min_def)
  from cohort_is_month_of_first_request [OF m u, of "[]"] show ?thesis
    unfolding ts Let_def mn by (simp add: to_period_M_def)
qed

section \<open>The usage matrix\<close>

lemma map_of_counts:
  "map_of (map (\<lambda>k. (k, count_list ks k)) (sort (remdups ks))) k =
     (if k \<in> set ks then Some (count_list ks k) else None)"
  by (simp add: map_of_map_restrict restrict_map_def)

lemma count_or_zero:
  "(case map_of (cohort_usage df) k of None \<Rightarrow> 0 | Some n \<Rightarrow> int n) =
     int (count_list (group_keys df) k)"
  by (simp add: cohort_usage_def Let_def map_of_counts count_list_0_iff)

lemma sorted_remdups_cong:
  fixes xs ys :: "'a :: linorder list"
  shows "set xs = set ys \<Longrightarrow> sort (remdups xs) = sort (remdups ys)"
  by (rule sorted_distinct_set_unique) simp_all

lemma cohort_usage_matrix_eq:
  "cohort_usage_matrix df =
     \<lparr>columns = sort (remdups (map snd (group_keys df))),
      rows = map (\<lambda>c. (c, map (\<lambda>m. int (count_list (group_keys df) (c, m)))
                              (sort (remdups (map snd (group_keys df))))))
                 (sort (remdups (map fst (group_keys df))))\<rparr>"
proof -
  let ?ks = "group_keys df"
  have k: "map (\<lambda>(k, n). fst k) (cohort_usage df) = map fst (sort (remdups ?ks))"
    "map (\<lambda>(k, n). snd k) (cohort_usage df) = map snd (sort (remdups ?ks))"
    by (simp_all add: cohort_usage_def Let_def comp_def)
  have i: "sort (remdups (map fst (sort (remdups ?ks)))) = sort (remdups (map fst ?ks))"
    "sort (remdups (map snd (sort (remdups ?ks)))) = sort (remdups (map snd ?ks))"
    by (rule sorted_remdups_cong, simp)+
  show ?thesis
    unfolding cohort_usage_matrix_def Let_def k i count_or_zero ..
qed

lemma usage_row:
  "map_of (rows (cohort_usage_matrix df)) c =
     (if c \<in> fst ` set (group_keys df)
      then Some (map (\<lambda>m. int (count_list (group_keys df) (c, m)))
                     (sort (remdups (map snd (group_keys df)))))
      else None)"
  by (simp add: cohort_usage_matrix_eq map_of_map_restrict restrict_map_def)

lemma sum_list_indicator:
  "distinct cols \<Longrightarrow>
     sum_list (map (\<lambda>m. if m' = m then (1::int) else 0) cols) = (if m' \<in> set cols then 1 else 0)"
  by (induction cols) auto

lemma sum_usage_row:
  assumes "distinct cols" "snd ` set ks \<subseteq> set cols"
  shows "sum_list (map (\<lambda>m. int (count_list ks (c, m))) cols) = int (count_list (map fst ks) c)"
  using assms(2)
proof (induction ks)
  case Nil
  show ?case by simp
next
  case (Cons k ks)
  obtain c' m' where k: "k = (c', m')" by (cases k)
  from Cons.prems k have m': "m' \<in> set cols" by simp
  have "sum_list (map (\<lambda>m. int (count_list (k # ks) (c, m))) cols) =
        sum_list (map (\<lambda>m. (if c' = c then (if m' = m then 1 else 0) else 0)
                            + int (count_list ks (c, m))) cols)"
    by (rule arg_cong [where f = sum_list], rule map_cong) (auto simp: k)
  also have "\<dots> = sum_list (map (\<lambda>m. if c' = c then (if m' = m then 1 else 0) else 0) cols)
                   + sum_list (map (\<lambda>m. int (count_list ks (c, m))) cols)"
    by (simp add: sum_list_addf)
  also have "sum_list (map (\<lambda>m. if c' = c then (if m' = m then 1 else 0) else (0::int)) cols) =
               (if c' = c then 1 else 0)"
    using sum_list_indicator [OF assms(1), of m'] m' by (cases "c' = c") simp_all
  finally show ?case using Cons by (simp add: k)
qed

lemma fst_group_keys:
  assumes "\<forall>r\<in>set df. year_month (cash_cols r) \<noteq> None"
  shows "map fst (group_keys df) = dropna (map cohort_year_month df)"
  using assms
proof (induction df)
  case Nil
  show ?case by (simp add: group_keys_def)
next
  case (Cons r df)
  then have "map fst (group_keys df) = dropna (map cohort_year_month df)" by simp
  moreover from Cons.prems obtain m where "year_month (cash_cols r) = Some m" by auto
  ultimately show ?case
    by (cases "cohort_year_month r") (simp_all add: group_keys_def)
qed

text \<open>
  C10. When every row of the cohort-tagged table has an activity month, the cells of a
  cohort's row of the usage matrix add up to the \<open>total_requests\<close> of that cohort in the
  incident-rate table, and the two tables have the same cohorts.
\<close>

theorem usage_row_sum_is_total_requests:
  assumes "\<forall>r\<in>set df. year_month (cash_cols r) \<noteq> None"
  shows "map_option sum_list (map_of (rows (cohort_usage_matrix df)) c) =
           map_option int (map_of (total_counts df) c)"
proof -
  let ?ks = "group_keys df"
  let ?cols = "sort (remdups (map snd ?ks))"
  have f: "map fst ?ks = dropna (map cohort_year_month df)"
    by (rule fst_group_keys [OF assms])
  have t: "map_of (total_counts df) c =
             (if c \<in> fst ` set ?ks then Some (count_list (map fst ?ks) c) else None)"
    unfolding total_counts_def Let_def f [symmetric] by (simp add: map_of_counts)
  have s: "sum_list (map (\<lambda>m. int (count_list ?ks (c, m))) ?cols) = int (count_list (map fst ?ks) c)"
    by (rule sum_usage_row) simp_all
  show ?thesis by (simp add: usage_row t s)
qed

lemma ex_tagged:
  "cohort_tagged ex_users [] =
    [\<lparr>cash_cols = add_year_month (ex_users ! 0), fee_cols = None, cohort_year_month = Some (Period 24240)\<rparr>,
     \<lparr>cash_cols = add_year_month (ex_users ! 1), fee_cols = None, cohort_year_month = Some (Period 24241)\<rparr>,
     \<lparr>cash_cols = add_year_month (ex_users ! 2), fee_cols = None, cohort_year_month = Some (Period 24240)\<rparr>]"
  by (simp add: cohort_tagged_def ex_users_def Let_def merged_cash_fee_cohort_def merged_df_def
      merge_left_def merge_left_row_def user_first_request_def group_min_def min_skipna_def
      period_str_def add_year_month_def to_period_M_def min_def)

theorem usage_row_sum_is_total_requests_witness:
  "map_option sum_list (map_of (rows (cohort_usage_matrix (cohort_tagged ex_users []))) (Period 24240)) = Some 2"
proof -
  have h: "\<forall>r\<in>set (cohort_tagged ex_users []). year_month (cash_cols r) \<noteq> None"
    unfolding ex_tagged by (simp add: ex_users_def add_year_month_def)
  have t: "map_of (total_counts (cohort_tagged ex_users [])) (Period 24240) = Some 2"
    by (simp add: ex_tagged total_counts_def Let_def)
  from usage_row_sum_is_total_requests [OF h, of "Period 24240"] show ?thesis
    by (simp add: t)
qed

section \<open>Binary64 rounding\<close>

lemma rint_of_int [simp]: "rint (of_int k) = k"
  by (simp add: rint_def)

lemma rint_eqI:
  assumes "of_int m - 1 / 2 < y" "y < of_int m + 1 / 2"
  shows "rint y = m"
proof -
  have f: "of_int \<lfloor>y\<rfloor> \<le> y" "y < of_int \<lfloor>y\<rfloor> + 1" by linarith+
  consider "y - of_int \<lfloor>y\<rfloor> < 1 / 2" | "1 / 2 < y - of_int \<lfloor>y\<rfloor>" | "y - of_int \<lfloor>y\<rfloor> = 1 / 2"
    by linarith
  then show ?thesis
  proof cases
    case 1
    with assms f have "rat_of_int m < of_int \<lfloor>y\<rfloor> + 1" "rat_of_int \<lfloor>y\<rfloor> < of_int m + 1" by linarith+
    then have "m < \<lfloor>y\<rfloor> + 1" "\<lfloor>y\<rfloor> < m + 1" by linarith+
    then have "\<lfloor>y\<rfloor> = m" by simp
    with 1 show ?thesis by (simp add: rint_def)
  next
    case 2
    with assms f have "rat_of_int \<lfloor>y\<rfloor> < of_int m" "rat_of_int m < of_int \<lfloor>y\<rfloor> + 2" by linarith+
    then have "\<lfloor>y\<rfloor> < m" "m < \<lfloor>y\<rfloor> + 2" by linarith+
    then have "\<lfloor>y\<rfloor> + 1 = m" by simp
    with 2 show ?thesis by (auto simp: rint_def)
  next
    case 3
    with assms have "rat_of_int m - 1 < of_int \<lfloor>y\<rfloor>" "rat_of_int \<lfloor>y\<rfloor> < of_int m" by linarith+
    then have "m - 1 < \<lfloor>y\<rfloor>" "\<lfloor>y\<rfloor> < m" by linarith+
    then show ?thesis by simp
  qed
qed

lemma rint_close: "\<bar>of_int (rint y) - y\<bar> \<le> 1 / 2"
proof -
  have f: "of_int \<lfloor>y\<rfloor> \<le> y" "y < of_int \<lfloor>y\<rfloor> + 1" by linarith+
  then show ?thesis by (auto simp: rint_def Let_def) 
qed

lemma rint_ge_one: "1 \<le> y \<Longrightarrow> 1 \<le> rint y"
proof -
  assume "1 \<le> y"
  then have "1 \<le> \<lfloor>y\<rfloor>" by simp
  then show ?thesis by (auto simp: rint_def Let_def)
qed

lemma ilog2_bounds:
  assumes "0 < x"
  shows "2 powi (ilog2 x) \<le> x \<and> x < 2 powi (ilog2 x + 1)"
proof -
  obtain p q where pq: "quotient_of x = (p, q)" by (cases "quotient_of x")
  then have q: "0 < q" by (rule quotient_of_denom_pos)
  from pq have x: "x = of_int p / of_int q" by (rule quotient_of_div)
  with assms q have p: "0 < p" by (simp add: zero_less_divide_iff)
  define a where "a = floorlog 2 (nat p)"
  define b where "b = floorlog 2 (nat q)"
  define k where "k = int a - int b"
  from floorlog_bounds [of "nat p" 2] p have pa: "2 ^ (a - 1) \<le> nat p" "nat p < 2 ^ a"
    by (simp_all add: a_def)
  from floorlog_bounds [of "nat q" 2] q have qb: "2 ^ (b - 1) \<le> nat q" "nat q < 2 ^ b"
    by (simp_all add: b_def)
  have a1: "a \<noteq> 0" using pa(2) p by (cases a) simp_all
  have b1: "b \<noteq> 0" using qb(2) q by (cases b) simp_all
  have nat_rat: "rat_of_nat (nat p) = of_int p" "rat_of_nat (nat q) = of_int q"
    using p q by simp_all
  from pa(1) have "rat_of_nat (2 ^ (a - 1)) \<le> rat_of_nat (nat p)" by (simp only: of_nat_le_iff)
  then have "(2::rat) ^ (a - 1) \<le> of_int p" by (simp add: nat_rat)
  then have pa1: "(2::rat) ^ a \<le> 2 * of_int p" using a1 by (simp add: power_eq_if)
  from pa(2) have "rat_of_nat (nat p) < rat_of_nat (2 ^ a)" by (simp only: of_nat_less_iff)
  then have pa2: "of_int p < (2::rat) ^ a" by (simp add: nat_rat)
  from qb(1) have "rat_of_nat (2 ^ (b - 1)) \<le> rat_of_nat (nat q)" by (simp only: of_nat_le_iff)
  then have "(2::rat) ^ (b - 1) \<le> of_int q" by (simp add: nat_rat)
  then have qb1: "(2::rat) ^ b \<le> 2 * of_int q" using b1 by (simp add: power_eq_if)
  from qb(2) have "rat_of_nat (nat q) < rat_of_nat (2 ^ b)" by (simp only: of_nat_less_iff)
  then have qb2: "of_int q < (2::rat) ^ b" by (simp add: nat_rat)
  have pk: "(2::rat) powi k = 2 ^ a / 2 ^ b" by (simp add: k_def power_int_diff)
  have P: "0 < rat_of_int p" "0 < rat_of_int q" using p q by simp_all
  have up: "x < 2 powi (k + 1)"
  proof -
    have "rat_of_int p * 2 ^ b < 2 ^ a * 2 ^ b" using pa2 by simp
    also have "\<dots> \<le> 2 ^ a * (2 * of_int q)" using qb1 by simp
    finally have "rat_of_int p * 2 ^ b < 2 * 2 ^ a * of_int q" by (simp add: mult_ac)
    then have "rat_of_int p / of_int q < 2 * 2 ^ a / 2 ^ b"
      using P by (simp add: field_simps)
    then show ?thesis by (simp add: x power_int_add pk mult_ac)
  qed
  have lo: "2 powi (k - 1) \<le> x"
  proof -
    have "(2::rat) ^ a * of_int q \<le> 2 * of_int p * of_int q" using pa1 P by simp
    also have "\<dots> \<le> 2 * of_int p * 2 ^ b" using qb2 P by simp
    finally have "(2::rat) ^ a * of_int q \<le> 2 * 2 ^ b * of_int p" by (simp add: mult_ac)
    then have "(2::rat) ^ a / (2 * 2 ^ b) \<le> of_int p / of_int q"
      using P by (simp add: field_simps)
    then show ?thesis by (simp add: x power_int_diff pk)
  qed
  have i: "ilog2 x = (if 2 powi k \<le> x then k else k - 1)"
    by (simp add: ilog2_def pq a_def b_def k_def)
  show ?thesis
  proof (cases "2 powi k \<le> x")
    case True
    with up i show ?thesis by simp
  next
    case False
    with lo i show ?thesis by simp
  qed
qed

lemma ilog2_unique:
  assumes "0 < x" "2 powi k \<le> x" "x < 2 powi (k + 1)"
  shows "ilog2 x = k"
proof -
  from ilog2_bounds [OF assms(1)] have b: "2 powi (ilog2 x) \<le> x" "x < 2 powi (ilog2 x + 1)"
    by simp_all
  have "\<not> k + 1 \<le> ilog2 x"
  proof
    assume "k + 1 \<le> ilog2 x"
    then have "(2::rat) powi (k + 1) \<le> 2 powi (ilog2 x)" by (intro power_int_increasing) simp_all
    with b(1) assms(3) show False by simp
  qed
  moreover have "\<not> ilog2 x + 1 \<le> k"
  proof
    assume "ilog2 x + 1 \<le> k"
    then have "(2::rat) powi (ilog2 x + 1) \<le> 2 powi k" by (intro power_int_increasing) simp_all
    with b(2) assms(2) show False by simp
  qed
  ultimately show ?thesis by simp
qed

lemma float64_eq:
  assumes "0 < x" "2 powi (e + 52) \<le> x" "x < 2 powi (e + 53)"
  shows "float64 x = of_int (rint (x / 2 powi e)) * 2 powi e"
proof -
  have "ilog2 x = e + 52" using assms by (intro ilog2_unique) (simp_all add: add.commute add.left_commute)
  with assms(1) show ?thesis by (simp add: float64_def)
qed

lemma float64_zero [simp]: "float64 0 = 0"
  by (simp add: float64_def)

lemma float64_pos:
  assumes "0 < x"
  shows "0 < float64 x"
proof -
  let ?e = "ilog2 x - 52"
  have "(2::rat) powi ?e \<le> 2 powi (ilog2 x)" by (intro power_int_increasing) simp_all
  also have "\<dots> \<le> x" using ilog2_bounds [OF assms] by simp
  finally have "1 \<le> x / 2 powi ?e" by (simp add: field_simps)
  then have "1 \<le> rint (x / 2 powi ?e)" by (rule rint_ge_one)
  then have "0 < rat_of_int (rint (x / 2 powi ?e)) * 2 powi ?e" by simp
  with assms show ?thesis by (simp add: float64_def Let_def)
qed

text \<open>
  The value is a number with a significand of 53 bits, within half a unit in the last place
  of the argument; one tenth becomes the binary64 number 0.1000000000000000055511151231257827.
\<close>

lemma floor_le_rint: "\<lfloor>y\<rfloor> \<le> rint y"
  by (simp add: rint_def Let_def)

lemma rint_le_floor_add_one: "rint y \<le> \<lfloor>y\<rfloor> + 1"
  by (simp add: rint_def Let_def)

lemma float64_significand:
  assumes "0 < x"
  shows "\<exists>m e. float64 x = of_int m * 2 powi e \<and> 2 ^ 52 \<le> m \<and> m \<le> 2 ^ 53 \<and>
           \<bar>float64 x - x\<bar> \<le> 2 powi e / 2"
proof -
  let ?e = "ilog2 x - 52"
  let ?y = "x / 2 powi ?e"
  let ?m = "rint ?y"
  have p: "(0::rat) < 2 powi ?e" by simp
  have e: "(2::rat) powi (ilog2 x) = 2 ^ 52 * 2 powi ?e" "(2::rat) powi (ilog2 x + 1) = 2 ^ 53 * 2 powi ?e"
    by (simp_all add: power_int_diff power_int_add)
  from ilog2_bounds [OF assms] have "2 ^ 52 * 2 powi ?e \<le> x" "x < 2 ^ 53 * 2 powi ?e"
    unfolding e by simp_all
  then have y: "2 ^ 52 \<le> ?y" "?y < 2 ^ 53" using p by (simp_all add: field_simps)
  from y(1) have "(2::int) ^ 52 \<le> \<lfloor>?y\<rfloor>" by (simp add: le_floor_iff)
  then have lo: "2 ^ 52 \<le> ?m" using floor_le_rint [of ?y] by linarith
  from y(2) have "\<lfloor>?y\<rfloor> < (2::int) ^ 53" by (simp add: floor_less_iff)
  then have hi: "?m \<le> 2 ^ 53" using rint_le_floor_add_one [of ?y] by linarith
  have f: "float64 x = of_int ?m * 2 powi ?e" using assms by (simp add: float64_def Let_def)
  have "float64 x - x = (of_int ?m - ?y) * 2 powi ?e" unfolding f by (simp add: field_simps)
  then have "\<bar>float64 x - x\<bar> = \<bar>of_int ?m - ?y\<bar> * 2 powi ?e" by (simp add: abs_mult)
  also have "\<dots> \<le> (1 / 2) * 2 powi ?e"
    using rint_close [of ?y] p by (intro mult_right_mono) simp_all
  finally have "\<bar>float64 x - x\<bar> \<le> 2 powi ?e / 2" by simp
  with f lo hi show ?thesis by blast
qed

lemma float64_tenth: "float64 (1 / 10) = (3602879701896397 / 36028797018963968)"
proof -
  have r: "rint ((1 / 10) / 2 powi (-56)) = 7205759403792794"
    by (rule rint_eqI) simp_all
  have f: "float64 (1 / 10) = of_int (rint ((1 / 10) / 2 powi (-56))) * 2 powi (-56)"
    by (rule float64_eq) simp_all
  show ?thesis unfolding f r by simp
qed

lemma float64_of_int:
  assumes "0 \<le> n" "n < 2 ^ 53"
  shows "float64 (of_int n) = of_int n"
proof (cases "n = 0")
  case True
  then show ?thesis by simp
next
  case False
  with assms have pos: "0 < rat_of_int n" by simp
  let ?j = "ilog2 (of_int n)"
  from ilog2_bounds [OF pos] have "2 powi ?j \<le> rat_of_int n" by simp
  also from assms(2) have "rat_of_int n < of_int (2 ^ 53)" by (simp only: of_int_less_iff)
  finally have "(2::rat) powi ?j < 2 powi 53" by simp
  then have "?j < 53" by (rule power_int_le_imp_less_exp [rotated]) simp_all
  define d where "d = nat (52 - ?j)"
  have d: "?j - 52 = - int d" using \<open>?j < 53\<close> by (simp add: d_def)
  have "rat_of_int n / 2 powi (- int d) = of_int (n * 2 ^ d)"
    by (simp add: power_int_minus divide_inverse)
  then have "rint (rat_of_int n / 2 powi (- int d)) = n * 2 ^ d"
    by (simp only: rint_of_int)
  then show ?thesis using pos
    by (simp add: float64_def d power_int_minus)
qed

lemma rint_num [simp]: "rint 0 = 0" "rint 1 = 1" "rint (numeral k) = numeral k"
  using rint_of_int [of 0] rint_of_int [of 1] rint_of_int [of "numeral k"] by simp_all

lemma float64_numeral [simp]:
  "(numeral k :: int) < 2 ^ 53 \<Longrightarrow> float64 (numeral k) = numeral k"
  using float64_of_int [of "numeral k"] by simp

lemma float64_one [simp]: "float64 1 = 1"
  using float64_of_int [of 1] by simp

lemma to_float_exact: "0 \<le> v \<Longrightarrow> v < 2 ^ 53 \<Longrightarrow> to_float v = of_int v"
  by (simp add: to_float_def float64_of_int)

lemma to_float_simps [simp]:
  "to_float 0 = 0" "to_float 1 = 1"
  "(numeral k :: int) < 2 ^ 53 \<Longrightarrow> to_float (numeral k) = numeral k"
  by (simp_all add: to_float_def)

lemma to_float_pos: "0 < v \<Longrightarrow> 0 < to_float v"
  by (simp add: to_float_def float64_pos)

lemma round_decimals_zero [simp]: "round_decimals n 0 = 0"
  by (simp add: round_decimals_def)

lemma round_decimals_3_one [simp]: "round_decimals 3 1 = 1"
  by (simp add: round_decimals_def)

lemma round_decimals_multiple:
  "\<exists>k. round_decimals n x = float64 (of_int k / 10 ^ n) \<and> \<bar>of_int k - float64 (x * 10 ^ n)\<bar> \<le> 1 / 2"
  unfolding round_decimals_def using rint_close by blast





lemma round_23_40_q: "float64 (23 / 40) = (2589569785738035 / 4503599627370496)"
proof -
  have r: "rint ((23 / 40) / 2 powi (-53)) = 5179139571476070"
    by (rule rint_eqI) simp_all
  have f: "float64 (23 / 40) = of_int (rint ((23 / 40) / 2 powi (-53))) * 2 powi (-53)"
    by (rule float64_eq) simp_all
  show ?thesis unfolding f r by simp
qed

lemma round_23_40_s: "float64 (64739244643450875 / 1125899906842624) = (8092405580431359 / 140737488355328)"
proof -
  have r: "rint ((64739244643450875 / 1125899906842624) / 2 powi (-47)) = 8092405580431359"
    by (rule rint_eqI) simp_all
  have f: "float64 (64739244643450875 / 1125899906842624) = of_int (rint ((64739244643450875 / 1125899906842624) / 2 powi (-47))) * 2 powi (-47)"
    by (rule float64_eq) simp_all
  show ?thesis unfolding f r by simp
qed

lemma round_23_40_r: "rint (8092405580431359 / 140737488355328) = 57"
  by (rule rint_eqI) simp_all

lemma round_23_40: "round_decimals 2 (float64 (23 / 40)) = float64 (57 / 100)"
  by (simp add: round_decimals_def round_23_40_q round_23_40_s round_23_40_r)





lemma round_14365_1539_q: "float64 (14365 / 1539) = (5254565354708997 / 562949953421312)"
proof -
  have r: "rint ((14365 / 1539) / 2 powi (-49)) = 5254565354708997"
    by (rule rint_eqI) simp_all
  have f: "float64 (14365 / 1539) = of_int (rint ((14365 / 1539) / 2 powi (-49))) * 2 powi (-49)"
    by (rule float64_eq) simp_all
  show ?thesis unfolding f r by simp
qed

lemma round_14365_1539_s: "float64 (131364133867724925 / 140737488355328) = (1026282295841601 / 1099511627776)"
proof -
  have r: "rint ((131364133867724925 / 140737488355328) / 2 powi (-43)) = 8210258366732808"
    by (rule rint_eqI) simp_all
  have f: "float64 (131364133867724925 / 140737488355328) = of_int (rint ((131364133867724925 / 140737488355328) / 2 powi (-43))) * 2 powi (-43)"
    by (rule float64_eq) simp_all
  show ?thesis unfolding f r by simp
qed

lemma round_14365_1539_r: "rint (1026282295841601 / 1099511627776) = 933"
  by (rule rint_eqI) simp_all

lemma round_14365_1539: "round_decimals 2 (float64 (14365 / 1539)) = float64 (933 / 100)"
  by (simp add: round_decimals_def round_14365_1539_q round_14365_1539_s round_14365_1539_r)

section \<open>The entry month of a cohort\<close>

lemma set_group_keys:
  "set (group_keys df) =
     {(c, m). \<exists>r\<in>set df. cohort_year_month r = Some c \<and> year_month (cash_cols r) = Some m}"
proof (induction df)
  case Nil
  show ?case by (simp add: group_keys_def)
next
  case (Cons r df)
  have "set (group_keys (r # df)) =
          (case cohort_year_month r of None \<Rightarrow> {}
           | Some c \<Rightarrow> (case year_month (cash_cols r) of None \<Rightarrow> {} | Some m \<Rightarrow> {(c, m)}))
          \<union> set (group_keys df)"
    by (simp add: group_keys_def split: option.splits)
  with Cons show ?case by (auto split: option.splits)
qed

lemma fst_le_of_le:
  fixes s t :: timestamp
  shows "s \<le> t \<Longrightarrow> to_period_M s \<le> to_period_M t"
  by (cases s; cases t) (auto simp: to_period_M_def)

lemma merged_df_has_row:
  assumes "c \<in> set cash_df"
  shows "\<exists>f. (c, f) \<in> set (merged_df cash_df fees_df)"
  using assms merge_left_fst [of "\<lambda>c. Some (id_cash c)" cash_request_id cash_df fees_df]
  by (force simp: merged_df_def)

lemma merged_df_from_cash:
  assumes "(c, f) \<in> set (merged_df cash_df fees_df)"
  shows "c \<in> set cash_df"
  using assms merge_left_fst [of "\<lambda>c. Some (id_cash c)" cash_request_id cash_df fees_df]
  by (force simp: merged_df_def)

lemma group_keys_pipeline:
  assumes "(c, m) \<in> set (group_keys (cohort_tagged cash fees_df))"
  shows "\<exists>p. c = Period p \<and> p \<le> m \<and> (Period p, p) \<in> set (group_keys (cohort_tagged cash fees_df))"
proof -
  let ?cash = "map add_year_month cash"
  from assms obtain r where r: "r \<in> set (cohort_tagged cash fees_df)"
    "cohort_year_month r = Some c" "year_month (cash_cols r) = Some m"
    by (auto simp: set_group_keys)
  from r(1) obtain x f where xf: "(x, f) \<in> set (merged_df ?cash fees_df)"
    and rx: "r = \<lparr>cash_cols = x, fee_cols = f,
                 cohort_year_month = map_option (\<lambda>u. period_str (group_min ?cash u)) (final_user_id x)\<rparr>"
    by (auto simp: set_cohort_tagged)
  from r(2) rx obtain u where u: "final_user_id x = Some u" and c: "c = period_str (group_min ?cash u)"
    by auto
  from xf have "x \<in> set ?cash" by (rule merged_df_from_cash)
  then obtain x0 where x0: "x0 \<in> set cash" "x = add_year_month x0" by auto
  from r(3) rx x0(2) obtain t' where t': "created_at x0 = Some t'" "m = to_period_M t'"
    by (auto simp: add_year_month_def)
  from u x0(2) have ux0: "final_user_id x0 = Some u" by (simp add: add_year_month_def)
  let ?ts = "dropna (map created_at (filter (\<lambda>r. final_user_id r = Some u) cash))"
  have t'in: "t' \<in> set ?ts" using x0(1) ux0 t'(1) by (force simp: set_dropna image_iff)
  then have ne: "?ts \<noteq> []" by auto
  have gm: "group_min ?cash u = Some (Min (set ?ts))"
    by (simp add: group_min_add_year_month min_skipna_Min [OF ne])
  let ?p = "to_period_M (Min (set ?ts))"
  have cp: "c = Period ?p" by (simp add: c gm period_str_def)
  have "Min (set ?ts) \<le> t'" using t'in by simp
  then have le: "?p \<le> m" unfolding t'(2) by (rule fst_le_of_le)
  have "Min (set ?ts) \<in> set ?ts" using ne by (intro Min_in) simp_all
  then obtain y0 where y0: "y0 \<in> set cash" "final_user_id y0 = Some u"
    "created_at y0 = Some (Min (set ?ts))"
    by (auto simp: set_dropna image_iff)
  have "add_year_month y0 \<in> set ?cash" using y0(1) by simp
  then obtain g where g: "(add_year_month y0, g) \<in> set (merged_df ?cash fees_df)"
    using merged_df_has_row by blast
  let ?r = "\<lparr>cash_cols = add_year_month y0, fee_cols = g,
             cohort_year_month = Some (period_str (group_min ?cash u))\<rparr>"
  have "?r \<in> set (cohort_tagged cash fees_df)"
    unfolding set_cohort_tagged using g y0(2) by (force simp: image_iff add_year_month_def)
  moreover have "cohort_year_month ?r = Some (Period ?p)" by (simp add: gm period_str_def)
  moreover have "year_month (cash_cols ?r) = Some ?p" by (simp add: add_year_month_def y0(3))
  ultimately have "(Period ?p, ?p) \<in> set (group_keys (cohort_tagged cash fees_df))"
    unfolding set_group_keys by blast
  with cp le show ?thesis by blast
qed

lemma find_first:
  fixes cols :: "nat list"
  assumes "sorted cols" "p \<in> set cols" "\<forall>m\<in>set cols. m < p \<longrightarrow> \<not> P (f m)" "P (f p)"
  shows "find P (map f cols) = Some (f p)"
  using assms
proof (induction cols)
  case Nil
  then show ?case by simp
next
  case (Cons a cols)
  show ?case
  proof (cases "a = p")
    case True
    with Cons.prems(4) show ?thesis by simp
  next
    case False
    with Cons.prems(1,2) have "a < p" "p \<in> set cols" by auto
    with Cons show ?thesis by simp
  qed
qed

lemma usage_row_of_member:
  assumes "(c, row) \<in> set (rows (cohort_usage_matrix df))"
  shows "map_of (rows (cohort_usage_matrix df)) c = Some row"
proof -
  have "distinct (map fst (rows (cohort_usage_matrix df)))"
    by (simp add: cohort_usage_matrix_eq comp_def)
  then show ?thesis using assms by (rule map_of_is_SomeI)
qed

lemma usage_cell:
  "cell (cohort_usage_matrix df) c m =
     (if c \<in> fst ` set (group_keys df) \<and> m \<in> snd ` set (group_keys df)
      then Some (int (count_list (group_keys df) (c, m))) else None)"
proof -
  have cols: "columns (cohort_usage_matrix df) = sort (remdups (map snd (group_keys df)))"
    by (simp add: cohort_usage_matrix_eq)
  show ?thesis by (simp add: cell_def usage_row cols map_of_zip_map)
qed

lemma first_positive_is_entry:
  assumes "(c, row) \<in> set (rows (cohort_usage_matrix (cohort_tagged cash fees_df)))"
  shows "\<exists>p d. c = Period p \<and>
           cell (cohort_usage_matrix (cohort_tagged cash fees_df)) c p = Some d \<and> 0 < d \<and>
           find (\<lambda>v. 0 < v) (map to_float row) = Some (to_float d)"
proof -
  let ?df = "cohort_tagged cash fees_df"
  let ?ks = "group_keys ?df"
  let ?cols = "sort (remdups (map snd ?ks))"
  let ?f = "\<lambda>m. int (count_list ?ks (c, m))"
  from usage_row_of_member [OF assms] have c: "c \<in> fst ` set ?ks" and row: "row = map ?f ?cols"
    by (auto simp: usage_row split: if_splits)
  from c obtain m where "(c, m) \<in> set ?ks" by force
  from group_keys_pipeline [OF this] obtain p where p: "c = Period p" "(Period p, p) \<in> set ?ks"
    by blast
  have pin: "p \<in> set ?cols" using p(2) by force
  have "count_list ?ks (c, p) \<noteq> 0" using p by (simp add: count_list_0_iff)
  then have pos: "0 < ?f p" by simp
  have zero: "\<forall>m\<in>set ?cols. m < p \<longrightarrow> \<not> 0 < to_float (?f m)"
  proof (intro ballI impI)
    fix m assume "m \<in> set ?cols" "m < p"
    have "(c, m) \<notin> set ?ks"
    proof
      assume "(c, m) \<in> set ?ks"
      from group_keys_pipeline [OF this] p(1) \<open>m < p\<close> show False by auto
    qed
    then show "\<not> 0 < to_float (?f m)" by (simp add: count_list_0_iff)
  qed
  have "find (\<lambda>v. 0 < v) (map (\<lambda>m. to_float (?f m)) ?cols) = Some (to_float (?f p))"
    by (rule find_first [where f = "\<lambda>m. to_float (?f m)"])
      (use pin zero to_float_pos [OF pos] in simp_all)
  then have "find (\<lambda>v. 0 < v) (map to_float row) = Some (to_float (?f p))"
    by (simp add: row comp_def)
  moreover have "cell (cohort_usage_matrix ?df) c p = Some (?f p)"
    using c p(2) by (force simp: usage_cell)
  ultimately show ?thesis using p(1) pos by blast
qed

text \<open>
  C9. Every cohort row of the usage matrix built by the pipeline has a strictly positive
  cell in the column of the cohort's own month, and that cell is the first positive value
  of the row: the divisor that the retention loop picks is the entry-month value.
\<close>

theorem usage_diagonal_positive:
  assumes "(c, row) \<in> set (rows (cohort_usage_matrix (cohort_tagged cash fees_df)))"
  shows "\<exists>d. diagonal (cohort_usage_matrix (cohort_tagged cash fees_df)) c = Some d \<and> 0 < d \<and>
           find (\<lambda>v. 0 < v) (map to_float row) = Some (to_float d) \<and>
           retention_row (map to_float row) =
             map (\<lambda>v. round_decimals 3 (float64 (v / to_float d))) (map to_float row)"
proof -
  from first_positive_is_entry [OF assms] obtain p d where
    pd: "c = Period p" "cell (cohort_usage_matrix (cohort_tagged cash fees_df)) c p = Some d"
      "0 < d" "find (\<lambda>v. 0 < v) (map to_float row) = Some (to_float d)"
    by blast
  then have "retention_row (map to_float row) =
             map (\<lambda>v. round_decimals 3 (float64 (v / to_float d))) (map to_float row)"
    using to_float_pos [of d] by (simp add: retention_row_def)
  with pd show ?thesis by (simp add: diagonal_def)
qed

lemma ex_group_keys:
  "group_keys (cohort_tagged ex_users []) =
     [(Period 24240, 24240), (Period 24241, 24241), (Period 24240, 24242)]"
  unfolding ex_tagged
  by (simp add: group_keys_def ex_users_def add_year_month_def to_period_M_def)

lemma ex_usage:
  "cohort_usage_matrix (cohort_tagged ex_users []) =
     \<lparr>columns = [24240, 24241, 24242],
      rows = [(Period 24240, [1, 0, 1]), (Period 24241, [0, 1, 0])]\<rparr>"
  unfolding cohort_usage_matrix_eq ex_group_keys
  by simp

theorem usage_diagonal_positive_witness:
  "\<exists>d. diagonal (cohort_usage_matrix (cohort_tagged ex_users [])) (Period 24240) = Some d \<and> 0 < d \<and>
        find (\<lambda>v. 0 < v) (map to_float [1, 0, 1]) = Some (to_float d)"
proof -
  have "(Period 24240, [1, 0, 1]) \<in> set (rows (cohort_usage_matrix (cohort_tagged ex_users [])))"
    unfolding ex_usage by simp
  from usage_diagonal_positive [OF this] show ?thesis by blast
qed

section \<open>The retention matrix\<close>

lemma retention_row_no_positive:
  assumes "\<forall>v\<in>set row. \<not> 0 < v"
  shows "retention_row row = map (\<lambda>v. 0) row"
proof -
  from assms have "find (\<lambda>v. 0 < v) row = None" by (simp add: find_None_iff)
  then show ?thesis by (simp add: retention_row_def)
qed










section \<open>Revenue and cumulative revenue\<close>

lemma length_cumsum_from [simp]: "length (cumsum_from acc xs) = length xs"
  by (induction xs arbitrary: acc) simp_all







lemma ex_paid_tagged:
  "cohort_tagged ex_users ex_paid =
    [\<lparr>cash_cols = add_year_month (ex_users ! 0), fee_cols = Some (ex_paid ! 0), cohort_year_month = Some (Period 24240)\<rparr>,
     \<lparr>cash_cols = add_year_month (ex_users ! 1), fee_cols = Some (ex_paid ! 1), cohort_year_month = Some (Period 24241)\<rparr>,
     \<lparr>cash_cols = add_year_month (ex_users ! 2), fee_cols = Some (ex_paid ! 2), cohort_year_month = Some (Period 24240)\<rparr>,
     \<lparr>cash_cols = add_year_month (ex_users ! 2), fee_cols = Some (ex_paid ! 3), cohort_year_month = Some (Period 24240)\<rparr>]"
  by (simp add: cohort_tagged_def ex_users_def ex_paid_def Let_def merged_cash_fee_cohort_def merged_df_def
      merge_left_def merge_left_row_def user_first_request_def group_min_def min_skipna_def
      period_str_def add_year_month_def to_period_M_def min_def)

lemma ex_paid_accepted:
  "accepted_fees (cohort_tagged ex_users ex_paid) =
    [\<lparr>cash_cols = add_year_month (ex_users ! 0), fee_cols = Some (ex_paid ! 0), cohort_year_month = Some (Period 24240)\<rparr>,
     \<lparr>cash_cols = add_year_month (ex_users ! 1), fee_cols = Some (ex_paid ! 1), cohort_year_month = Some (Period 24241)\<rparr>,
     \<lparr>cash_cols = add_year_month (ex_users ! 2), fee_cols = Some (ex_paid ! 3), cohort_year_month = Some (Period 24240)\<rparr>]"
  unfolding ex_paid_tagged by (simp add: accepted_fees_def fee_status_of_def ex_paid_def)

lemma ex_paid_revenue:
  "cohort_revenue (cohort_tagged ex_users ex_paid) = [(Period 24240, 10), (Period 24241, 10)]"
  unfolding cohort_revenue_def ex_paid_accepted Let_def
  by (simp add: total_amount_of_def ex_paid_def)


section \<open>ARPU and CLV\<close>

lemma filter_distinct_key:
  "distinct (map rk right) \<Longrightarrow>
     filter (\<lambda>r. rk r = k) right =
       (case find (\<lambda>r. rk r = k) right of None \<Rightarrow> [] | Some r \<Rightarrow> [r])"
proof (induction right)
  case Nil
  show ?case by simp
next
  case (Cons r right)
  show ?case
  proof (cases "rk r = k")
    case True
    have "rk x \<noteq> k" if "x \<in> set right" for x
      using Cons.prems True that by (auto simp: image_iff)
    then have "filter (\<lambda>r. rk r = k) right = []"
      by (simp add: filter_empty_conv)
    with True show ?thesis by simp
  next
    case False
    with Cons show ?thesis by simp
  qed
qed

lemma merge_left_distinct:
  assumes "distinct (map rk right)"
  shows "merge_left lk rk left right = map (\<lambda>l. (l, find (\<lambda>r. rk r = lk l) right)) left"
proof -
  have "merge_left_row lk rk right l = [(l, find (\<lambda>r. rk r = lk l) right)]" for l
    by (simp add: merge_left_row_def Let_def filter_distinct_key [OF assms] split: option.splits)
  then show ?thesis by (induction left) (simp_all add: merge_left_def)
qed

lemma find_fst: "find (\<lambda>r. fst r = k) xs = map_option (Pair k) (map_of xs k)"
  by (induction xs) auto

lemma merge_left_lookup:
  assumes "distinct (map fst right)"
  shows "merge_left lk fst left right =
           map (\<lambda>l. (l, map_option (Pair (lk l)) (map_of right (lk l)))) left"
  by (simp add: merge_left_distinct [OF assms] find_fst)

lemma distinct_cohort_user_counts: "distinct (map fst (cohort_user_counts ufr))"
  by (simp add: cohort_user_counts_def Let_def comp_def)

lemma arpu_df_eq:
  "arpu_df revenue ufr =
     map (\<lambda>(c, rev).
            \<lparr>cohort_of = c, revenue_of = rev,
             user_count = map_of (cohort_user_counts ufr) c,
             arpu = map_option (\<lambda>n. round_decimals 2 (float64 (rev / to_float (int n))))
                      (map_of (cohort_user_counts ufr) c)\<rparr>) revenue"
  by (simp add: arpu_df_def merge_left_lookup [OF distinct_cohort_user_counts]
      case_prod_unfold option.map_comp comp_def option.map_ident)

lemma distinct_filtered_index:
  "distinct (map fst (rows (filtered_retention_matrix (cohort_usage_matrix df))))"
proof -
  have "map fst (rows (filtered_retention_matrix (cohort_usage_matrix df))) =
          filter (\<lambda>c. c \<notin> set (map Period partial_months))
            (map fst (rows (cohort_usage_matrix df)))"
    by (simp add: filtered_retention_matrix_def filtered_usage_def Let_def comp_def
        case_prod_unfold filter_map)
  moreover have "distinct (map fst (rows (cohort_usage_matrix df)))"
    by (simp add: cohort_usage_matrix_eq comp_def)
  ultimately show ?thesis by simp
qed

lemma map_of_avg_retention_months:
  "map_of (avg_retention_months R) c =
     map_option (\<lambda>row. length (filter (\<lambda>v. 0 < v) row)) (map_of (rows R) c)"
  by (simp add: avg_retention_months_def map_of_map)

lemma clv_df_eq:
  assumes "distinct (map fst (rows R))"
  shows "clv_df arpu_tab R =
     filter (\<lambda>r. cohort_of r \<notin> set (map Period partial_months))
       (map (\<lambda>a. \<lparr>cohort_of = cohort_of a, revenue_of = revenue_of a,
                  user_count = user_count a, arpu = arpu a,
                  avg_months = map_of (avg_retention_months R) (cohort_of a),
                  clv = clv_of (arpu a) (map_of (avg_retention_months R) (cohort_of a))\<rparr>)
            arpu_tab)"
proof -
  have "distinct (map fst (avg_retention_months R))"
    using assms by (simp add: avg_retention_months_def comp_def case_prod_unfold)
  then show ?thesis
    by (simp add: clv_df_def merge_left_lookup case_prod_unfold option.map_comp comp_def
        option.map_ident)
qed

lemma count_list_replicate: "count_list (replicate n x) x = n"
  by (induction n) simp_all

lemma ex_paid_group_keys:
  "group_keys (cohort_tagged ex_users ex_paid) =
     [(Period 24240, 24240), (Period 24241, 24241), (Period 24240, 24242), (Period 24240, 24242)]"
  unfolding ex_paid_tagged
  by (simp add: group_keys_def ex_users_def add_year_month_def to_period_M_def)

lemma ex_paid_filtered:
  "filtered_retention_matrix (cohort_usage_matrix (cohort_tagged ex_users ex_paid)) =
     \<lparr>columns = [24240, 24241, 24242],
      rows = [(Period 24240, [1, 0, 2]), (Period 24241, [0, 1, 0])]\<rparr>"
  unfolding cohort_usage_matrix_eq ex_paid_group_keys
  by (simp add: filtered_retention_matrix_def filtered_usage_def partial_months_def Let_def
      filtered_retention_row_def round_decimals_def)

text \<open>
  C8, as the claim states it, fails: the months left out of the CLV table are the fixed
  list \<^verbatim>\<open>['2019-11', '2020-11']\<close>, not the first and last month of the table at hand.
  For requests made from January to March 2020, the cohort of January 2020, the first
  month of the data, keeps its row in the CLV table.
\<close>

theorem first_month_cohort_kept_counterexample:
  "map year_month (map add_year_month ex_users) = [Some 24240, Some 24241, Some 24242] \<and>
   map (\<lambda>r. (cohort_of r, clv r))
     (clv_table (cohort_revenue (cohort_tagged ex_users ex_paid))
        (user_first_request (map add_year_month ex_users)) (cohort_tagged ex_users ex_paid)) =
     [(Period 24240, Some 20), (Period 24241, Some 10)]"
proof -
  have "map year_month (map add_year_month ex_users) = [Some 24240, Some 24241, Some 24242]"
    by (simp add: ex_users_def add_year_month_def to_period_M_def)
  moreover have "map (\<lambda>r. (cohort_of r, clv r))
     (clv_table (cohort_revenue (cohort_tagged ex_users ex_paid))
        (user_first_request (map add_year_month ex_users)) (cohort_tagged ex_users ex_paid)) =
     [(Period 24240, Some 20), (Period 24241, Some 10)]"
    unfolding clv_table_def ex_paid_filtered ex_paid_revenue
    by (simp add: clv_df_def arpu_df_def merge_left_def merge_left_row_def cohort_user_counts_def
      user_first_request_def ex_users_def Let_def group_min_def min_skipna_def
      period_str_def add_year_month_def to_period_M_def min_def avg_retention_months_def
      partial_months_def clv_of_def round_decimals_def)
  ultimately show ?thesis by (intro conjI)
qed

text \<open>
  C8, amended. The CLV table has one row for each row of the revenue table whose cohort
  is not in the fixed list of partial months, November 2019 and November 2020 (the first
  and last months of the reference data), and none for those two cohorts. In each row the
  ARPU is the cohort revenue divided by the number of users of the cohort, rounded to 2
  decimals, and the CLV is the ARPU times the number of strictly positive cells in the
  cohort's row of the filtered retention matrix, rounded to 2 decimals; both are float64
  multiples of 0.01, and are missing where the user count or the retention row is.
\<close>

theorem clv_is_arpu_times_active_months:
  "let FR = filtered_retention_matrix (cohort_usage_matrix df);
       T = clv_table revenue ufr df
   in map cohort_of T = filter (\<lambda>c. c \<notin> set (map Period partial_months)) (map fst revenue) \<and>
      (\<forall>r\<in>set T.
         (cohort_of r, revenue_of r) \<in> set revenue \<and>
         user_count r =
           (if cohort_of r \<in> set (map cohort_year_month_ufr ufr)
            then Some (count_list (map cohort_year_month_ufr ufr) (cohort_of r)) else None) \<and>
         arpu r = map_option (\<lambda>n. round_decimals 2 (float64 (revenue_of r / to_float (int n))))
                    (user_count r) \<and>
         avg_months r =
           map_option (\<lambda>row. length (filter (\<lambda>v. 0 < v) row)) (map_of (rows FR) (cohort_of r)) \<and>
         clv r = (case arpu r of None \<Rightarrow> None
                  | Some a \<Rightarrow> map_option (\<lambda>k. round_decimals 2 (float64 (a * to_float (int k))))
                               (avg_months r)) \<and>
         (\<forall>a. arpu r = Some a \<longrightarrow> (\<exists>j. a = float64 (of_int j / 10 ^ 2))) \<and>
         (\<forall>x. clv r = Some x \<longrightarrow> (\<exists>j. x = float64 (of_int j / 10 ^ 2))))"
proof -
  let ?FR = "filtered_retention_matrix (cohort_usage_matrix df)"
  let ?N = "map_of (cohort_user_counts ufr)"
  let ?M = "map_of (avg_retention_months ?FR)"
  let ?mk = "\<lambda>a. \<lparr>cohort_of = cohort_of a, revenue_of = revenue_of a,
                  user_count = user_count a, arpu = arpu a,
                  avg_months = ?M (cohort_of a),
                  clv = clv_of (arpu a) (?M (cohort_of a))\<rparr>"
  let ?A = "arpu_df revenue ufr"
  have T: "clv_table revenue ufr df =
             filter (\<lambda>r. cohort_of r \<notin> set (map Period partial_months)) (map ?mk ?A)"
    unfolding clv_table_def by (rule clv_df_eq [OF distinct_filtered_index])
  have cA: "map cohort_of ?A = map fst revenue"
    by (simp add: arpu_df_eq case_prod_unfold comp_def)
  have "map cohort_of (map ?mk ?A) = map cohort_of ?A" by (simp add: comp_def)
  then have 1: "map cohort_of (clv_table revenue ufr df) =
                  filter (\<lambda>c. c \<notin> set (map Period partial_months)) (map fst revenue)"
    unfolding T cA [symmetric] by (simp add: filter_map comp_def)
  have N: "?N c = (if c \<in> set (map cohort_year_month_ufr ufr)
                   then Some (count_list (map cohort_year_month_ufr ufr) c) else None)" for c
    by (simp add: cohort_user_counts_def Let_def map_of_counts)
  have 2: "(cohort_of r, revenue_of r) \<in> set revenue \<and>
         user_count r =
           (if cohort_of r \<in> set (map cohort_year_month_ufr ufr)
            then Some (count_list (map cohort_year_month_ufr ufr) (cohort_of r)) else None) \<and>
         arpu r = map_option (\<lambda>n. round_decimals 2 (float64 (revenue_of r / to_float (int n))))
                    (user_count r) \<and>
         avg_months r =
           map_option (\<lambda>row. length (filter (\<lambda>v. 0 < v) row)) (map_of (rows ?FR) (cohort_of r)) \<and>
         clv r = (case arpu r of None \<Rightarrow> None
                  | Some a \<Rightarrow> map_option (\<lambda>k. round_decimals 2 (float64 (a * to_float (int k))))
                               (avg_months r)) \<and>
         (\<forall>a. arpu r = Some a \<longrightarrow> (\<exists>j. a = float64 (of_int j / 10 ^ 2))) \<and>
         (\<forall>x. clv r = Some x \<longrightarrow> (\<exists>j. x = float64 (of_int j / 10 ^ 2)))"
    if "r \<in> set (clv_table revenue ufr df)" for r
  proof -
    from that obtain a where a: "a \<in> set ?A" and r: "r = ?mk a"
      unfolding T by auto
    from a obtain c v where cv: "(c, v) \<in> set revenue"
      and a': "a = \<lparr>cohort_of = c, revenue_of = v, user_count = ?N c,
                    arpu = map_option (\<lambda>n. round_decimals 2 (float64 (v / to_float (int n)))) (?N c)\<rparr>"
      unfolding arpu_df_eq by auto
    have f: "cohort_of r = c" "revenue_of r = v" "user_count r = ?N c"
      "arpu r = map_option (\<lambda>n. round_decimals 2 (float64 (v / to_float (int n)))) (?N c)"
      "avg_months r = ?M c"
      by (simp_all add: r a')
    have g: "clv r = clv_of (arpu r) (avg_months r)"
      by (simp add: r)
    have m: "\<exists>j. round_decimals 2 y = float64 (of_int j / 10 ^ 2)" for y
      using round_decimals_multiple [of 2 y] by blast
    have ra: "\<exists>j. a = float64 (of_int j / 10 ^ 2)" if "arpu r = Some a" for a
      using that m unfolding f by (cases "?N c") auto
    have rc: "\<exists>j. x = float64 (of_int j / 10 ^ 2)" if "clv r = Some x" for x
      using that m unfolding g clv_of_def by (cases "arpu r"; cases "avg_months r") auto
    have main: "(cohort_of r, revenue_of r) \<in> set revenue \<and>
         user_count r =
           (if cohort_of r \<in> set (map cohort_year_month_ufr ufr)
            then Some (count_list (map cohort_year_month_ufr ufr) (cohort_of r)) else None) \<and>
         arpu r = map_option (\<lambda>n. round_decimals 2 (float64 (revenue_of r / to_float (int n))))
                    (user_count r) \<and>
         avg_months r =
           map_option (\<lambda>row. length (filter (\<lambda>v. 0 < v) row)) (map_of (rows ?FR) (cohort_of r)) \<and>
         clv r = (case arpu r of None \<Rightarrow> None
                  | Some a \<Rightarrow> map_option (\<lambda>k. round_decimals 2 (float64 (a * to_float (int k))))
                               (avg_months r))"
      unfolding g unfolding f using cv
      by (simp add: N map_of_avg_retention_months clv_of_def)
    from main ra rc show ?thesis by blast
  qed
  from 1 2 show ?thesis by (simp add: Let_def)
qed

lemma ex_nov_tagged:
  "cohort_tagged ex_nov_users ex_nov_fees =
    [\<lparr>cash_cols = add_year_month (ex_nov_users ! 0), fee_cols = Some (ex_nov_fees ! 0), cohort_year_month = Some (Period 24240)\<rparr>,
     \<lparr>cash_cols = add_year_month (ex_nov_users ! 1), fee_cols = Some (ex_nov_fees ! 1), cohort_year_month = Some (Period 24241)\<rparr>,
     \<lparr>cash_cols = add_year_month (ex_nov_users ! 2), fee_cols = Some (ex_nov_fees ! 2), cohort_year_month = Some (Period 24240)\<rparr>,
     \<lparr>cash_cols = add_year_month (ex_nov_users ! 2), fee_cols = Some (ex_nov_fees ! 3), cohort_year_month = Some (Period 24240)\<rparr>,
     \<lparr>cash_cols = add_year_month (ex_nov_users ! 3), fee_cols = Some (ex_nov_fees ! 4), cohort_year_month = Some (Period 24238)\<rparr>]"
  by (simp add: cohort_tagged_def ex_nov_users_def ex_nov_fees_def ex_users_def ex_paid_def Let_def
      merged_cash_fee_cohort_def merged_df_def
      merge_left_def merge_left_row_def user_first_request_def group_min_def min_skipna_def
      period_str_def add_year_month_def to_period_M_def min_def)

lemma ex_nov_revenue:
  "cohort_revenue (cohort_tagged ex_nov_users ex_nov_fees) =
     [(Period 24238, 5), (Period 24240, 10), (Period 24241, 10)]"
  unfolding ex_nov_tagged
  by (simp add: cohort_revenue_def accepted_fees_def fee_status_of_def total_amount_of_def
      ex_nov_fees_def ex_paid_def Let_def)

lemma ex_nov_group_keys:
  "group_keys (cohort_tagged ex_nov_users ex_nov_fees) =
     [(Period 24240, 24240), (Period 24241, 24241), (Period 24240, 24242),
      (Period 24240, 24242), (Period 24238, 24238)]"
  unfolding ex_nov_tagged
  by (simp add: group_keys_def ex_nov_users_def ex_users_def add_year_month_def to_period_M_def)

lemma ex_nov_usage:
  "cohort_usage_matrix (cohort_tagged ex_nov_users ex_nov_fees) =
     \<lparr>columns = [24238, 24240, 24241, 24242],
      rows = [(Period 24238, [1, 0, 0, 0]), (Period 24240, [0, 1, 0, 2]),
              (Period 24241, [0, 0, 1, 0])]\<rparr>"
  unfolding cohort_usage_matrix_eq ex_nov_group_keys
  by simp

lemma ex_nov_filtered:
  "filtered_retention_matrix (cohort_usage_matrix (cohort_tagged ex_nov_users ex_nov_fees)) =
     \<lparr>columns = [24240, 24241, 24242],
      rows = [(Period 24240, [1, 0, 2]), (Period 24241, [0, 1, 0])]\<rparr>"
  unfolding ex_nov_usage
  by (simp add: filtered_retention_matrix_def filtered_usage_def partial_months_def Let_def
      filtered_retention_row_def round_decimals_def)

lemma ex_nov_clv:
  "clv_table (cohort_revenue (cohort_tagged ex_nov_users ex_nov_fees))
             (user_first_request (map add_year_month ex_nov_users))
             (cohort_tagged ex_nov_users ex_nov_fees) =
     [\<lparr>cohort_of = Period 24240, revenue_of = 10, user_count = Some 1, arpu = Some 10,
       avg_months = Some 2, clv = Some 20\<rparr>,
      \<lparr>cohort_of = Period 24241, revenue_of = 10, user_count = Some 1, arpu = Some 10,
       avg_months = Some 1, clv = Some 10\<rparr>]"
  unfolding clv_table_def ex_nov_filtered ex_nov_revenue
  by (simp add: clv_df_def arpu_df_def merge_left_def merge_left_row_def cohort_user_counts_def
      user_first_request_def ex_nov_users_def ex_users_def Let_def group_min_def min_skipna_def
      period_str_def add_year_month_def to_period_M_def min_def avg_retention_months_def
      partial_months_def clv_of_def round_decimals_def)

lemma ex_forty_cohorts:
  "map cohort_year_month_ufr ex_forty_users = replicate 40 (Period 24240)"
  by (simp add: ex_forty_users_def comp_def map_replicate_const)

theorem clv_is_arpu_times_active_months_witness:
  "map fst (cohort_revenue (cohort_tagged ex_nov_users ex_nov_fees)) =
     [Period 24238, Period 24240, Period 24241] \<and>
   map cohort_of (clv_table (cohort_revenue (cohort_tagged ex_nov_users ex_nov_fees))
                   (user_first_request (map add_year_month ex_nov_users))
                   (cohort_tagged ex_nov_users ex_nov_fees)) =
     [Period 24240, Period 24241] \<and>
   map clv (clv_table (cohort_revenue (cohort_tagged ex_nov_users ex_nov_fees))
                   (user_first_request (map add_year_month ex_nov_users))
                   (cohort_tagged ex_nov_users ex_nov_fees)) = [Some 20, Some 10] \<and>
   map arpu (clv_table [(Period 24240, 23)] ex_forty_users []) = [Some (float64 (57 / 100))]"
proof -
  from clv_is_arpu_times_active_months
    [of "cohort_tagged ex_nov_users ex_nov_fees"
        "cohort_revenue (cohort_tagged ex_nov_users ex_nov_fees)"
        "user_first_request (map add_year_month ex_nov_users)"]
  have "map cohort_of (clv_table (cohort_revenue (cohort_tagged ex_nov_users ex_nov_fees))
                   (user_first_request (map add_year_month ex_nov_users))
                   (cohort_tagged ex_nov_users ex_nov_fees)) =
          filter (\<lambda>c. c \<notin> set (map Period partial_months))
            (map fst (cohort_revenue (cohort_tagged ex_nov_users ex_nov_fees)))"
    unfolding Let_def by (rule conjunct1)
  then have a: "map cohort_of (clv_table (cohort_revenue (cohort_tagged ex_nov_users ex_nov_fees))
                   (user_first_request (map add_year_month ex_nov_users))
                   (cohort_tagged ex_nov_users ex_nov_fees)) =
               [Period 24240, Period 24241]"
    unfolding ex_nov_revenue by (simp add: partial_months_def)
  have b: "map clv (clv_table (cohort_revenue (cohort_tagged ex_nov_users ex_nov_fees))
                   (user_first_request (map add_year_month ex_nov_users))
                   (cohort_tagged ex_nov_users ex_nov_fees)) = [Some 20, Some 10]"
    unfolding ex_nov_clv by simp
  let ?T = "clv_table [(Period 24240, 23)] ex_forty_users []"
  note w = clv_is_arpu_times_active_months [of "[]" "[(Period 24240, 23)]" ex_forty_users,
      unfolded Let_def]
  from w have "map cohort_of ?T =
      filter (\<lambda>c. c \<notin> set (map Period partial_months)) (map fst [(Period 24240, 23 :: rat)])"
    by (rule conjunct1)
  then have "map cohort_of ?T = [Period 24240]" by (simp add: partial_months_def)
  then obtain r where T: "?T = [r]" and c: "cohort_of r = Period 24240"
    by (auto simp: map_eq_Cons_conv)
  have rin: "r \<in> set ?T" unfolding T by simp
  note wr = bspec [OF conjunct2 [OF w] rin]
  from wr have r: "(cohort_of r, revenue_of r) \<in> set [(Period 24240, 23 :: rat)]"
    "user_count r =
       (if cohort_of r \<in> set (map cohort_year_month_ufr ex_forty_users)
        then Some (count_list (map cohort_year_month_ufr ex_forty_users) (cohort_of r)) else None)"
    "arpu r = map_option (\<lambda>n. round_decimals 2 (float64 (revenue_of r / to_float (int n))))
                (user_count r)"
    by blast+
  from r(1) have v: "revenue_of r = 23" by simp
  from r(2) have n: "user_count r = Some 40"
    unfolding c ex_forty_cohorts by (simp add: count_list_replicate)
  have "arpu r = Some (float64 (57 / 100))"
    unfolding r(3) v n by (simp add: round_23_40)
  then have d: "map arpu ?T = [Some (float64 (57 / 100))]" by (simp add: T)
  from a b d show ?thesis by (simp add: ex_nov_revenue)
qed

end
